theory Spec2Isabelle
  imports Complex_Main "HOL-Library.Char_ord" "HOL-Library.List_Lexorder"
begin

section \<open>Progress tracker\<close>

text \<open>
  Embedding of \<^verbatim>\<open>src/core/progress/progress-tracker.ts\<close>. The class
  \<^verbatim>\<open>ProgressTracker\<close> holds one mutable \<^verbatim>\<open>CrawlProgress\<close> object; every method
  becomes a function from the snapshot to the updated snapshot. \<^verbatim>\<open>Date.now()\<close> is an
  extra argument \<open>now\<close> (milliseconds, an integer). The counters, which start at 0 or 1
  and only grow by additions of lengths and of 1, are natural numbers. \<^verbatim>\<open>maxPages\<close> and
  \<^verbatim>\<open>maxDepth\<close> are the numbers the caller passes, which need not be whole: they are
  rationals, as every finite double is. The divisions, multiplications and the
  subtraction of \<^verbatim>\<open>calculateProgress\<close> are those of double precision numbers: the exact
  result, rounded to the nearest double (\<open>to_double\<close>). \<^verbatim>\<open>Math.round\<close> is exact:
  rounding half up, \<open>\<lfloor>x + 1/2\<rfloor>\<close>.
  The listeners, the Redis and database writes of \<^verbatim>\<open>updateJobProgress\<close> and the
  interval timer of \<^verbatim>\<open>startStdoutUpdates\<close> do not write to the counters and are left out.
\<close>

subsection \<open>Double precision arithmetic\<close>

text \<open>
  A double is a rational \<open>m * 2^e\<close> with an integer \<open>m\<close> of at most 53 bits.
  \<open>to_double x\<close> is the double nearest to \<open>x\<close>, ties going to the even \<open>m\<close>: scale
  \<open>\<bar>x\<bar>\<close> by the power of two that brings it into \<open>[2^52, 2^53)\<close>, round to an integer,
  scale back. Overflow and subnormal numbers are not modelled; the counts, clock
  readings and rates of the tracker are far from both. Integers below \<open>2^53\<close> are doubles.
\<close>

definition pow2 :: "int \<Rightarrow> rat" where
  "pow2 e = (if 0 \<le> e then 2 ^ nat e else 1 / 2 ^ nat (- e))"

definition round_half_even :: "rat \<Rightarrow> int" where
  "round_half_even m =
     (let f = \<lfloor>m\<rfloor>; d = m - of_int f
      in if d < 1 / 2 then f else if 1 / 2 < d then f + 1 else if even f then f else f + 1)"

text \<open>\<open>\<lfloor>log\<^sub>2 n\<rfloor>\<close> for \<open>n \<ge> 1\<close>.\<close>

function ilog2 :: "int \<Rightarrow> int" where
  "ilog2 n = (if n \<le> 1 then 0 else 1 + ilog2 (n div 2))"
  by pat_completeness auto
termination
  by (relation "measure nat") auto

text \<open>\<open>\<lfloor>log\<^sub>2 a\<rfloor>\<close> for a rational \<open>a > 0\<close>: the difference of the logarithms of
  numerator and denominator, or one less.\<close>

definition binade :: "rat \<Rightarrow> int" where
  "binade a =
     (let (n, d) = quotient_of a; k = ilog2 n - ilog2 d
      in if pow2 k \<le> a then k else k - 1)"

definition to_double :: "rat \<Rightarrow> rat" where
  "to_double x =
     (if x = 0 then 0
      else (let a = \<bar>x\<bar>; e = binade a - 52; r = round_half_even (a / pow2 e)
            in sgn x * of_int r * pow2 e))"

text \<open>The JavaScript operators \<^verbatim>\<open>/\<close> (with a divisor that is not zero), \<^verbatim>\<open>*\<close> and
  \<^verbatim>\<open>-\<close> on doubles, and \<^verbatim>\<open>Math.round\<close>.\<close>

definition js_div :: "rat \<Rightarrow> rat \<Rightarrow> rat" where
  "js_div a b = to_double (a / b)"

definition js_mul :: "rat \<Rightarrow> rat \<Rightarrow> rat" where
  "js_mul a b = to_double (a * b)"

definition js_sub :: "rat \<Rightarrow> rat \<Rightarrow> rat" where
  "js_sub a b = to_double (a - b)"

definition js_round :: "rat \<Rightarrow> int" where
  "js_round x = \<lfloor>x + 1 / 2\<rfloor>"

subsection \<open>The snapshot and its methods\<close>

datatype crawl_status = Starting | Crawling | Paused | Completed | Failed | Cancelled

datatype crawl_phase = Discovering | Processing | Finishing

datatype verbosity = Minimal | Normal | Verbose

text \<open>The value of \<^verbatim>\<open>progressPercentage\<close>: an integer, or \<^verbatim>\<open>NaN\<close> (0/0 when
  \<^verbatim>\<open>maxPages\<close> is 0 and nothing has been processed).\<close>

datatype js_int = Fin int | NaN

record ProgressError =
  err_url :: string
  err_error :: string
  err_timestamp :: int
  err_depth :: nat

record ProgressTrackerOptions =
  opt_jobId :: string
  opt_startUrl :: string
  opt_maxPages :: rat
  opt_maxDepth :: rat
  enableStdoutUpdates :: bool
  stdoutVerbosity :: verbosity
  useSmartEstimation :: bool
  minPagesForEstimation :: nat

record CrawlProgress =
  jobId :: string
  startUrl :: string
  startTime :: int
  currentTime :: int
  totalPagesDiscovered :: nat
  pagesProcessed :: nat
  pagesSuccessful :: nat
  pagesFailed :: nat
  currentUrl :: "string option"
  currentDepth :: nat
  currentPageNumber :: nat
  progressPercentage :: js_int
  estimatedTimeRemaining :: "int option"
  pagesPerMinute :: int
  urlsInQueue :: nat
  maxDepth :: rat
  maxPages :: rat
  status :: crawl_status
  phase :: crawl_phase
  errors :: "ProgressError list"
  stdoutMessageCount :: nat

definition initializeProgress :: "ProgressTrackerOptions \<Rightarrow> int \<Rightarrow> CrawlProgress" where
  "initializeProgress opts now =
     \<lparr> jobId = opt_jobId opts, startUrl = opt_startUrl opts,
       startTime = now, currentTime = now,
       totalPagesDiscovered = 1, pagesProcessed = 0, pagesSuccessful = 0, pagesFailed = 0,
       currentUrl = None, currentDepth = 0, currentPageNumber = 0,
       progressPercentage = Fin 0, estimatedTimeRemaining = None, pagesPerMinute = 0,
       urlsInQueue = 1, maxDepth = opt_maxDepth opts, maxPages = opt_maxPages opts,
       status = Starting, phase = Discovering,
       errors = [], stdoutMessageCount = 0 \<rparr>"


text \<open>\<^verbatim>\<open>Math.min(Math.round((pagesProcessed / maxPages) * 100), 100)\<close>, with the
  division by zero of JavaScript written out: \<^verbatim>\<open>n/0\<close> is \<^verbatim>\<open>Infinity\<close> for \<open>n > 0\<close>
  (the minimum with 100 is 100) and \<^verbatim>\<open>0/0\<close> is \<^verbatim>\<open>NaN\<close>.\<close>

definition percentage_of :: "nat \<Rightarrow> rat \<Rightarrow> js_int" where
  "percentage_of processed maxP =
     (if maxP = 0 then (if processed = 0 then NaN else Fin 100)
      else Fin (min (js_round (js_mul (js_div (of_nat processed) maxP) 100)) 100))"

fun js_ge :: "js_int \<Rightarrow> int \<Rightarrow> bool" where
  "js_ge (Fin a) b = (b \<le> a)"
| "js_ge NaN b = False"

definition calculateProgress :: "ProgressTrackerOptions \<Rightarrow> CrawlProgress \<Rightarrow> CrawlProgress" where
  "calculateProgress opts p =
     (let pct = percentage_of (pagesProcessed p) (maxPages p);
          elapsedMinutes = js_div (of_int (currentTime p - startTime p)) (1000 * 60);
          ppm = (if elapsedMinutes > 0
                 then js_round (js_div (of_nat (pagesProcessed p)) elapsedMinutes)
                 else pagesPerMinute p);
          eta = (if useSmartEstimation opts
                    \<and> minPagesForEstimation opts \<le> pagesProcessed p \<and> ppm > 0
                 then (let remainingPages = js_sub (maxPages p) (of_nat (pagesProcessed p));
                           estimatedMinutes = js_div remainingPages (of_int ppm)
                       in Some (js_round (js_mul (js_mul estimatedMinutes 60) 1000)))
                 else estimatedTimeRemaining p);
          ph = (if js_ge pct 95 then Finishing
                else if urlsInQueue p = 0 \<and> pagesProcessed p > 0 then Finishing
                else if pagesProcessed p > 0 then Processing
                else Discovering)
      in p\<lparr> progressPercentage := pct, estimatedTimeRemaining := eta,
             pagesPerMinute := ppm, phase := ph \<rparr>)"

text \<open>\<^verbatim>\<open>emitUpdate\<close>: of its effects only the stdout line counter is part of the
  snapshot.\<close>

definition emitUpdate :: "ProgressTrackerOptions \<Rightarrow> bool \<Rightarrow> CrawlProgress \<Rightarrow> CrawlProgress" where
  "emitUpdate opts shouldOutputToStdout p =
     (if shouldOutputToStdout \<and> enableStdoutUpdates opts
      then p\<lparr> stdoutMessageCount := stdoutMessageCount p + 1 \<rparr> else p)"

definition startProcessingPage ::
  "ProgressTrackerOptions \<Rightarrow> int \<Rightarrow> string \<Rightarrow> nat \<Rightarrow> CrawlProgress \<Rightarrow> CrawlProgress" where
  "startProcessingPage opts now url depth p =
     emitUpdate opts True (calculateProgress opts
       (p\<lparr> currentUrl := Some url, currentDepth := depth,
            currentPageNumber := currentPageNumber p + 1, currentTime := now,
            status := Crawling, phase := Processing \<rparr>))"

definition pageCompleted ::
  "ProgressTrackerOptions \<Rightarrow> int \<Rightarrow> string \<Rightarrow> nat \<Rightarrow> CrawlProgress \<Rightarrow> CrawlProgress" where
  "pageCompleted opts now url linksFound p =
     (let p1 = p\<lparr> pagesProcessed := pagesProcessed p + 1,
                    pagesSuccessful := pagesSuccessful p + 1, currentTime := now \<rparr>;
          p2 = (if linksFound > 0
                then p1\<lparr> totalPagesDiscovered := totalPagesDiscovered p1 + linksFound,
                          urlsInQueue := urlsInQueue p1 + linksFound \<rparr>
                else p1)
      in emitUpdate opts (stdoutVerbosity opts \<noteq> Minimal) (calculateProgress opts p2))"

definition pageFailed ::
  "ProgressTrackerOptions \<Rightarrow> int \<Rightarrow> string \<Rightarrow> string \<Rightarrow> CrawlProgress \<Rightarrow> CrawlProgress" where
  "pageFailed opts now url error p =
     (let p1 = p\<lparr> pagesProcessed := pagesProcessed p + 1,
                    pagesFailed := pagesFailed p + 1, currentTime := now \<rparr>;
          progressError = \<lparr> err_url = url, err_error = error, err_timestamp = now,
                            err_depth = currentDepth p1 \<rparr>;
          p2 = p1\<lparr> errors := errors p1 @ [progressError] \<rparr>
      in emitUpdate opts True (calculateProgress opts p2))"

definition urlsDiscovered ::
  "ProgressTrackerOptions \<Rightarrow> int \<Rightarrow> string list \<Rightarrow> nat \<Rightarrow> CrawlProgress \<Rightarrow> CrawlProgress" where
  "urlsDiscovered opts now urls depth p =
     emitUpdate opts (stdoutVerbosity opts = Verbose)
       (p\<lparr> totalPagesDiscovered := totalPagesDiscovered p + length urls,
            urlsInQueue := urlsInQueue p + length urls, currentTime := now \<rparr>)"

definition updateQueueStatus ::
  "ProgressTrackerOptions \<Rightarrow> int \<Rightarrow> nat \<Rightarrow> CrawlProgress \<Rightarrow> CrawlProgress" where
  "updateQueueStatus opts now n p =
     calculateProgress opts (p\<lparr> urlsInQueue := n, currentTime := now \<rparr>)"

definition markCompleted :: "ProgressTrackerOptions \<Rightarrow> int \<Rightarrow> CrawlProgress \<Rightarrow> CrawlProgress" where
  "markCompleted opts now p =
     emitUpdate opts True
       (p\<lparr> status := Completed, phase := Finishing, currentTime := now,
            progressPercentage := Fin 100 \<rparr>)"

definition markFailed ::
  "ProgressTrackerOptions \<Rightarrow> int \<Rightarrow> string \<Rightarrow> CrawlProgress \<Rightarrow> CrawlProgress" where
  "markFailed opts now reason p =
     emitUpdate opts True (p\<lparr> status := Failed, currentTime := now \<rparr>)"

text \<open>The public mutators as events, each with the clock reading it sees.\<close>

datatype tracker_event =
    StartProcessingPage string nat
  | PageCompleted string nat
  | PageFailed string string
  | UrlsDiscovered "string list" nat
  | UpdateQueueStatus nat
  | MarkCompleted
  | MarkFailed string

fun apply_event ::
  "ProgressTrackerOptions \<Rightarrow> CrawlProgress \<Rightarrow> int \<times> tracker_event \<Rightarrow> CrawlProgress" where
  "apply_event opts p (now, StartProcessingPage url depth) = startProcessingPage opts now url depth p"
| "apply_event opts p (now, PageCompleted url n) = pageCompleted opts now url n p"
| "apply_event opts p (now, PageFailed url e) = pageFailed opts now url e p"
| "apply_event opts p (now, UrlsDiscovered urls depth) = urlsDiscovered opts now urls depth p"
| "apply_event opts p (now, UpdateQueueStatus n) = updateQueueStatus opts now n p"
| "apply_event opts p (now, MarkCompleted) = markCompleted opts now p"
| "apply_event opts p (now, MarkFailed reason) = markFailed opts now reason p"

definition run_events ::
  "ProgressTrackerOptions \<Rightarrow> int \<Rightarrow> (int \<times> tracker_event) list \<Rightarrow> CrawlProgress" where
  "run_events opts t0 evs = foldl (apply_event opts) (initializeProgress opts t0) evs"

text \<open>The events whose method ends in \<^verbatim>\<open>calculateProgress\<close>.\<close>

fun recalculates :: "tracker_event \<Rightarrow> bool" where
  "recalculates (StartProcessingPage _ _) = True"
| "recalculates (PageCompleted _ _) = True"
| "recalculates (PageFailed _ _) = True"
| "recalculates (UpdateQueueStatus _) = True"
| "recalculates _ = False"

definition counters_ok :: "CrawlProgress \<Rightarrow> bool" where
  "counters_ok p \<longleftrightarrow>
     pagesProcessed p = pagesSuccessful p + pagesFailed p \<and> length (errors p) = pagesFailed p"

text \<open>A tracker configured as \<^verbatim>\<open>crawlMultiPage\<close> configures it
  (\<^verbatim>\<open>useSmartEstimation: true, minPagesForEstimation: 3\<close>), for a given page budget.\<close>

definition example_options :: "rat \<Rightarrow> ProgressTrackerOptions" where
  "example_options budget =
     \<lparr> opt_jobId = ''job-1'', opt_startUrl = ''http://a.test/'', opt_maxPages = budget,
       opt_maxDepth = 2, enableStdoutUpdates = False, stdoutVerbosity = Normal,
       useSmartEstimation = True, minPagesForEstimation = 3 \<rparr>"

section \<open>Crawl engine\<close>

text \<open>
  Embedding of \<^verbatim>\<open>CrawlingService\<close> in \<^verbatim>\<open>src/core/scraper/crawling-service.ts\<close>.
  The local variables of \<^verbatim>\<open>crawlMultiPage\<close> (\<^verbatim>\<open>crawled\<close>, \<^verbatim>\<open>toCrawl\<close>,
  \<^verbatim>\<open>results\<close>, \<^verbatim>\<open>failedUrls\<close>, \<^verbatim>\<open>maxDepthReached\<close>, \<^verbatim>\<open>totalLinksDiscovered\<close>,
  \<^verbatim>\<open>progressTracker\<close>) are the fields of a state record. The state also holds what the
  engine does to its collaborators: the \<^verbatim>\<open>jobs\<close> table (the \<^verbatim>\<open>status\<close> and
  \<^verbatim>\<open>error_message\<close> columns), the rows inserted into the \<^verbatim>\<open>pages\<close> table, the
  calls made to \<^verbatim>\<open>scrapingService.scrapePage\<close> (each call acquires a browser session),
  and whether the job's tracker is registered in \<^verbatim>\<open>activeTrackers\<close>.

  The outside world is an environment: \<open>scrape env k url\<close> is the outcome of the page
  attempt on \<open>url\<close> made when \<open>k\<close> results are recorded, either \<open>Inl msg\<close>
  (\<^verbatim>\<open>scrapePage\<close> threw an \<^verbatim>\<open>Error\<close> with message \<open>msg\<close>, or something that is not an
  \<^verbatim>\<open>Error\<close> and \<open>msg\<close> is \<^verbatim>\<open>'Unknown error'\<close>) or \<open>Inr (code, links)\<close> (the page was
  scraped, \<^verbatim>\<open>scrapeResult.statusCode\<close> is \<open>code\<close>, which is 0 when the navigation gave
  no response, and \<^verbatim>\<open>extractAndFilterLinks\<close> returned \<open>links\<close>); \<open>clock env k i\<close> is the
  \<open>i\<close>-th reading of \<^verbatim>\<open>Date.now()\<close> by the tracker during that attempt.

  \<^verbatim>\<open>maxDepth\<close> and \<^verbatim>\<open>maxPages\<close> are JavaScript numbers, and nothing makes them whole:
  the request schema has \<^verbatim>\<open>Joi.number().min(1).max(10)\<close> and
  \<^verbatim>\<open>Joi.number().min(1).max(1000)\<close>, the MCP tool has \<^verbatim>\<open>z.number().min(1).max(5)\<close> and
  \<^verbatim>\<open>z.number().min(1).max(100)\<close>, and \<^verbatim>\<open>crawlMultiPage\<close> takes what it is given. They are
  rationals here, as every finite double is; an absent value and \<^verbatim>\<open>NaN\<close>, which
  \<^verbatim>\<open>||\<close> treats alike, are \<open>None\<close>; an infinite budget is not modelled. Depths of
  pages and lengths of arrays are natural numbers.

  The embedding is of a call in which the loop does not await \<^verbatim>\<open>progressCallback\<close>
  (line 190): a call without that argument, or with progress tracking enabled, which is
  the default; the callback is then only a listener of the tracker, called inside the
  tracker's own \<^verbatim>\<open>try\<close>. In such a call nothing between lines 152 and 361 throws
  outside the inner \<^verbatim>\<open>try\<close>: \<^verbatim>\<open>updateJobStatus\<close>, \<^verbatim>\<open>updateJobProgress\<close> and
  \<^verbatim>\<open>storePageResult\<close> catch and log their own errors. So the outer \<^verbatim>\<open>catch\<close> (lines
  361 to 377, tracker and job \<^verbatim>\<open>failed\<close>) has no counterpart here. The database is
  taken to accept every statement. The domain statistics, the timings, the
  \<^verbatim>\<open>progress\<close> column and the politeness delay are left out.
\<close>

datatype job_status = pending | processing | completed | failed | cancelled

record job_row =
  job_type :: string
  job_status :: job_status
  error_message :: "string option"

record page_row =
  row_url :: string
  row_depth :: nat
  row_status_code :: nat
  row_links_found :: nat
  row_error_message :: "string option"

record CrawlOptions =
  co_maxDepth :: "rat option"
  co_maxPages :: "rat option"
  co_enableProgressTracking :: "bool option"
  co_enableStdoutUpdates :: "bool option"
  co_stdoutVerbosity :: "verbosity option"

text \<open>The resolved \<^verbatim>\<open>crawlOptions\<close>, with the job id and the start URL.\<close>

record crawl_config =
  cfg_jobId :: string
  cfg_startUrl :: string
  cfg_maxDepth :: rat
  cfg_maxPages :: rat
  cfg_enableProgressTracking :: bool
  cfg_enableStdoutUpdates :: bool
  cfg_stdoutVerbosity :: verbosity

text \<open>\<^verbatim>\<open>options.maxDepth || 2\<close>: an absent value and 0 both give the default.\<close>

definition or_default :: "rat option \<Rightarrow> rat \<Rightarrow> rat" where
  "or_default v d = (case v of None \<Rightarrow> d | Some n \<Rightarrow> if n = 0 then d else n)"

definition crawl_defaults :: "string \<Rightarrow> string \<Rightarrow> CrawlOptions \<Rightarrow> crawl_config" where
  "crawl_defaults jid url options =
     \<lparr> cfg_jobId = jid, cfg_startUrl = url,
       cfg_maxDepth = or_default (co_maxDepth options) 2,
       cfg_maxPages = or_default (co_maxPages options) 10,
       cfg_enableProgressTracking = (co_enableProgressTracking options \<noteq> Some False),
       cfg_enableStdoutUpdates = (co_enableStdoutUpdates options = Some True),
       cfg_stdoutVerbosity = (case co_stdoutVerbosity options of None \<Rightarrow> Normal | Some v \<Rightarrow> v) \<rparr>"

definition trackerOptions :: "crawl_config \<Rightarrow> ProgressTrackerOptions" where
  "trackerOptions cfg =
     \<lparr> opt_jobId = cfg_jobId cfg, opt_startUrl = cfg_startUrl cfg,
       opt_maxPages = cfg_maxPages cfg, opt_maxDepth = cfg_maxDepth cfg,
       enableStdoutUpdates = cfg_enableStdoutUpdates cfg,
       stdoutVerbosity = cfg_stdoutVerbosity cfg,
       useSmartEstimation = True, minPagesForEstimation = 3 \<rparr>"

record FrontierEntry =
  fe_url :: string
  fe_depth :: nat

record PageResult =
  pr_url :: string
  pr_depth :: nat
  pr_pageNumber :: nat
  pr_success :: bool
  pr_error :: "string option"
  pr_linksFound :: nat

record crawl_env =
  scrape :: "nat \<Rightarrow> string \<Rightarrow> string + nat \<times> string list"
  clock :: "nat \<Rightarrow> nat \<Rightarrow> int"

record crawl_state =
  crawled :: "string set"
  toCrawl :: "FrontierEntry list"
  results :: "PageResult list"
  failedUrls :: "string list"
  maxDepthReached :: nat
  totalLinksDiscovered :: nat
  progressTracker :: "CrawlProgress option"
  activeTracker :: bool
  jobs :: "string \<rightharpoonup> job_row"
  pages :: "page_row list"
  scraped :: "string list"

text \<open>\<^verbatim>\<open>updateJobStatus\<close> (the same statement in \<^verbatim>\<open>CrawlingService\<close> and in
  \<^verbatim>\<open>JobManager\<close>): \<^verbatim>\<open>UPDATE jobs SET status = $1 ... WHERE id = $n\<close>, with
  \<^verbatim>\<open>error_message\<close> set only when an error message is passed. The statement has no
  condition on the status the row holds.\<close>

definition updateJobStatus ::
  "string \<Rightarrow> job_status \<Rightarrow> string option \<Rightarrow> (string \<rightharpoonup> job_row) \<Rightarrow> (string \<rightharpoonup> job_row)" where
  "updateJobStatus jid st errorMessage tbl =
     (case tbl jid of
        None \<Rightarrow> tbl
      | Some r \<Rightarrow> tbl(jid \<mapsto> r\<lparr> job_status := st,
            error_message := (case errorMessage of None \<Rightarrow> error_message r | Some e \<Rightarrow> Some e) \<rparr>))"

text \<open>JavaScript's truth value of an optional string: \<^verbatim>\<open>undefined\<close> and the empty
  string are falsy.\<close>

definition truthy :: "string option \<Rightarrow> bool" where
  "truthy v = (case v of None \<Rightarrow> False | Some e \<Rightarrow> e \<noteq> [])"

text \<open>\<^verbatim>\<open>storePageResult\<close> (lines 459 to 491): the row sent to the \<^verbatim>\<open>pages\<close> table.
  \<open>scrapeResult\<close> is the status code of the scrape result, \<open>None\<close> when the argument is
  \<^verbatim>\<open>undefined\<close>. The status code of the row is
  \<^verbatim>\<open>scrapeResult?.statusCode || (errorMessage ? 0 : 200)\<close>, where a status code of 0 is
  falsy, and its error message is \<^verbatim>\<open>errorMessage || null\<close>.\<close>

definition storePageResult ::
  "string \<Rightarrow> nat \<Rightarrow> nat option \<Rightarrow> nat \<Rightarrow> string option \<Rightarrow> page_row list
     \<Rightarrow> page_row list" where
  "storePageResult url depth scrapeResult linksFound errorMessage rows =
     (let fallback = (if truthy errorMessage then 0 else 200);
          statusCode = (case scrapeResult of
                          None \<Rightarrow> fallback
                        | Some code \<Rightarrow> if code \<noteq> 0 then code else fallback)
      in rows @ [\<lparr> row_url = url, row_depth = depth, row_status_code = statusCode,
                    row_links_found = linksFound,
                    row_error_message = (if truthy errorMessage then errorMessage else None) \<rparr>])"

definition track :: "(CrawlProgress \<Rightarrow> CrawlProgress) \<Rightarrow> crawl_state \<Rightarrow> crawl_state" where
  "track f s = s\<lparr> progressTracker := map_option f (progressTracker s) \<rparr>"

text \<open>The loop over \<^verbatim>\<open>discoveredLinks\<close> (lines 228 to 233): a link is pushed when it is
  neither crawled nor in the queue; the queue grows while the loop runs, so a link that
  occurs twice in the list is pushed once.\<close>

fun enqueue ::
  "string set \<Rightarrow> nat \<Rightarrow> string list \<Rightarrow> FrontierEntry list \<times> string list
     \<Rightarrow> FrontierEntry list \<times> string list" where
  "enqueue cr d [] (q, newUrls) = (q, newUrls)"
| "enqueue cr d (link # links) (q, newUrls) =
     (if link \<notin> cr \<and> \<not> list_ex (\<lambda>item. fe_url item = link) q
      then enqueue cr d links (q @ [\<lparr> fe_url = link, fe_depth = d \<rparr>], newUrls @ [link])
      else enqueue cr d links (q, newUrls))"

text \<open>The body of the loop from \<^verbatim>\<open>crawled.add(url)\<close> on (lines 164 to 313), for the
  entry \<open>e\<close> taken from the queue.\<close>

definition process_page ::
  "crawl_env \<Rightarrow> crawl_config \<Rightarrow> FrontierEntry \<Rightarrow> crawl_state \<Rightarrow> crawl_state" where
  "process_page env cfg e s =
     (let url = fe_url e; depth = fe_depth e; k = length (results s);
          topts = trackerOptions cfg;
          s1 = s\<lparr> crawled := insert url (crawled s),
                    maxDepthReached := max (maxDepthReached s) depth \<rparr>;
          s2 = track (startProcessingPage topts (clock env k 0) url depth) s1;
          pageNumber = k + 1;
          s3 = s2\<lparr> scraped := scraped s2 @ [url] \<rparr>
      in case scrape env k url of
           Inr (statusCode, discoveredLinks) \<Rightarrow>
             (let s4 = s3\<lparr> totalLinksDiscovered :=
                          totalLinksDiscovered s3 + length discoveredLinks \<rparr>;
                  (q, newUrls) =
                     (if of_nat depth < cfg_maxDepth cfg
                      then enqueue (crawled s4) (depth + 1) discoveredLinks (toCrawl s4, [])
                      else (toCrawl s4, []));
                  s5 = s4\<lparr> toCrawl := q \<rparr>;
                  s6 = track (pageCompleted topts (clock env k 1) url (length discoveredLinks)) s5;
                  s7 = (if newUrls \<noteq> []
                        then track (urlsDiscovered topts (clock env k 2) newUrls (depth + 1)) s6
                        else s6);
                  s8 = track (updateQueueStatus topts (clock env k 3) (length q)) s7;
                  s9 = s8\<lparr> pages :=
                          storePageResult url depth (Some statusCode) (length discoveredLinks)
                            None (pages s8) \<rparr>
              in s9\<lparr> results := results s9 @
                     [\<lparr> pr_url = url, pr_depth = depth, pr_pageNumber = pageNumber,
                        pr_success = True, pr_error = None,
                        pr_linksFound = length discoveredLinks \<rparr>] \<rparr>)
         | Inl errorMessage \<Rightarrow>
             (let s4 = s3\<lparr> failedUrls := failedUrls s3 @ [url] \<rparr>;
                  s5 = track (pageFailed topts (clock env k 1) url errorMessage) s4;
                  s6 = track (updateQueueStatus topts (clock env k 2) (length (toCrawl s5))) s5;
                  s7 = s6\<lparr> pages :=
                          storePageResult url depth None 0 (Some errorMessage) (pages s6) \<rparr>
              in s7\<lparr> results := results s7 @
                     [\<lparr> pr_url = url, pr_depth = depth, pr_pageNumber = pageNumber,
                        pr_success = False, pr_error = Some errorMessage,
                        pr_linksFound = 0 \<rparr>] \<rparr>))"

text \<open>One pass through the body of the \<^verbatim>\<open>while\<close> loop: \<^verbatim>\<open>toCrawl.shift()\<close>, then
  \<^verbatim>\<open>continue\<close> for an entry already crawled or too deep.\<close>

definition crawl_body :: "crawl_env \<Rightarrow> crawl_config \<Rightarrow> crawl_state \<Rightarrow> crawl_state" where
  "crawl_body env cfg s =
     (case toCrawl s of
        [] \<Rightarrow> s
      | e # rest \<Rightarrow>
          (let s1 = s\<lparr> toCrawl := rest \<rparr>
           in if fe_url e \<in> crawled s1 \<or> of_nat (fe_depth e) > cfg_maxDepth cfg then s1
              else process_page env cfg e s1))"

text \<open>The condition of the loop (line 156).\<close>

definition loop_guard :: "crawl_config \<Rightarrow> crawl_state \<Rightarrow> bool" where
  "loop_guard cfg s \<longleftrightarrow> toCrawl s \<noteq> [] \<and> of_nat (length (results s)) < cfg_maxPages cfg"

lemma track_fields [simp]:
  "crawled (track f s) = crawled s"
  "toCrawl (track f s) = toCrawl s"
  "results (track f s) = results s"
  "failedUrls (track f s) = failedUrls s"
  "pages (track f s) = pages s"
  "scraped (track f s) = scraped s"
  "jobs (track f s) = jobs s"
  "activeTracker (track f s) = activeTracker s"
  "maxDepthReached (track f s) = maxDepthReached s"
  "totalLinksDiscovered (track f s) = totalLinksDiscovered s"
  "progressTracker (track f s) = map_option f (progressTracker s)"
  by (simp_all add: track_def)

lemma process_page_results:
  "results (process_page env cfg e s) =
     results s @ [\<lparr> pr_url = fe_url e, pr_depth = fe_depth e,
                     pr_pageNumber = length (results s) + 1,
                     pr_success = (case scrape env (length (results s)) (fe_url e) of
                                   Inl _ \<Rightarrow> False | Inr _ \<Rightarrow> True),
                     pr_error = (case scrape env (length (results s)) (fe_url e) of
                                   Inl m \<Rightarrow> Some m | Inr _ \<Rightarrow> None),
                     pr_linksFound = (case scrape env (length (results s)) (fe_url e) of
                                   Inl _ \<Rightarrow> 0 | Inr r \<Rightarrow> length (snd r)) \<rparr>]"
  by (simp add: process_page_def Let_def split: sum.splits prod.splits)

lemma crawl_body_measure:
  assumes "loop_guard cfg s"
  shows "length (results (crawl_body env cfg s)) = Suc (length (results s))
         \<or> (results (crawl_body env cfg s) = results s
            \<and> length (toCrawl (crawl_body env cfg s)) < length (toCrawl s))"
  using assms
  by (cases "toCrawl s")
     (simp_all add: loop_guard_def crawl_body_def Let_def process_page_results)

text \<open>The \<^verbatim>\<open>while\<close> loop (line 156). Every pass either records one more result, and
  a pass begins only with fewer than \<^verbatim>\<open>maxPages\<close> of them, or shortens the queue, so
  the loop terminates.\<close>

function crawl_loop :: "crawl_env \<Rightarrow> crawl_config \<Rightarrow> crawl_state \<Rightarrow> crawl_state" where
  "crawl_loop env cfg s =
     (if loop_guard cfg s then crawl_loop env cfg (crawl_body env cfg s) else s)"
  by pat_completeness auto
termination
proof (relation "measures [\<lambda>(env, cfg, s). nat \<lceil>cfg_maxPages cfg\<rceil> - length (results s),
                           \<lambda>(env, cfg, s). length (toCrawl s)]")
  show "wf (measures [\<lambda>(env, cfg, s). nat \<lceil>cfg_maxPages cfg\<rceil> - length (results s),
                      \<lambda>(env, cfg, s). length (toCrawl s)])"
    by simp
next
  fix env :: crawl_env and cfg :: crawl_config and s :: crawl_state
  assume g: "loop_guard cfg s"
  then have "of_int (int (length (results s))) < cfg_maxPages cfg"
    by (simp add: loop_guard_def)
  also have "cfg_maxPages cfg \<le> of_int \<lceil>cfg_maxPages cfg\<rceil>"
    by (rule le_of_int_ceiling)
  finally have "int (length (results s)) < \<lceil>cfg_maxPages cfg\<rceil>"
    by simp
  then have "length (results s) < nat \<lceil>cfg_maxPages cfg\<rceil>"
    by simp
  with crawl_body_measure [OF g, of env]
  show "((env, cfg, crawl_body env cfg s), (env, cfg, s))
          \<in> measures [\<lambda>(env, cfg, s). nat \<lceil>cfg_maxPages cfg\<rceil> - length (results s),
                       \<lambda>(env, cfg, s). length (toCrawl s)]"
    by auto
qed

declare crawl_loop.simps [simp del]

text \<open>One scheduling step of the loop: a pass through the body when the loop condition
  holds, nothing otherwise. \<open>(crawl_iter env cfg ^^ n) s\<close> is the state after at most
  \<open>n\<close> passes; these are the states the traversal goes through.\<close>

definition crawl_iter :: "crawl_env \<Rightarrow> crawl_config \<Rightarrow> crawl_state \<Rightarrow> crawl_state" where
  "crawl_iter env cfg s = (if loop_guard cfg s then crawl_body env cfg s else s)"

text \<open>The state before the loop (lines 141 to 154), the work after it (lines 340 to 346
  and the \<^verbatim>\<open>finally\<close> block), and the whole of \<^verbatim>\<open>crawlMultiPage\<close>. \<open>t0\<close> is the
  clock reading at which the tracker is created.\<close>

definition crawl_start ::
  "crawl_config \<Rightarrow> int \<Rightarrow> (string \<rightharpoonup> job_row) \<Rightarrow> crawl_state" where
  "crawl_start cfg t0 tbl =
     \<lparr> crawled = {}, toCrawl = [\<lparr> fe_url = cfg_startUrl cfg, fe_depth = 0 \<rparr>],
       results = [], failedUrls = [], maxDepthReached = 0, totalLinksDiscovered = 0,
       progressTracker = (if cfg_enableProgressTracking cfg
                          then Some (initializeProgress (trackerOptions cfg) t0) else None),
       activeTracker = cfg_enableProgressTracking cfg,
       jobs = updateJobStatus (cfg_jobId cfg) processing None tbl,
       pages = [], scraped = [] \<rparr>"

definition crawl_finish :: "crawl_env \<Rightarrow> crawl_config \<Rightarrow> crawl_state \<Rightarrow> crawl_state" where
  "crawl_finish env cfg s =
     (let s1 = track (markCompleted (trackerOptions cfg) (clock env (length (results s)) 0)) s;
          s2 = s1\<lparr> jobs := updateJobStatus (cfg_jobId cfg) completed None (jobs s1) \<rparr>
      in s2\<lparr> activeTracker := False \<rparr>)"

definition crawlMultiPage ::
  "crawl_env \<Rightarrow> string \<Rightarrow> string \<Rightarrow> CrawlOptions \<Rightarrow> int \<Rightarrow> (string \<rightharpoonup> job_row) \<Rightarrow> crawl_state" where
  "crawlMultiPage env jid url options t0 tbl =
     (let cfg = crawl_defaults jid url options
      in crawl_finish env cfg (crawl_loop env cfg (crawl_start cfg t0 tbl)))"

text \<open>\<^verbatim>\<open>cancelCrawlJob\<close> (lines 646 to 660), called at clock reading \<open>now\<close> while the
  job's \<^verbatim>\<open>crawlMultiPage\<close> is suspended: it marks the tracker failed, unregisters it and
  writes the status \<^verbatim>\<open>cancelled\<close>. It writes nothing that the loop reads.\<close>

definition cancelCrawlJob :: "crawl_config \<Rightarrow> int \<Rightarrow> crawl_state \<Rightarrow> crawl_state \<times> bool" where
  "cancelCrawlJob cfg now s =
     (if activeTracker s \<and> progressTracker s \<noteq> None
      then (let s1 = track (markFailed (trackerOptions cfg) now ''Cancelled by user'') s;
                s2 = s1\<lparr> activeTracker := False \<rparr>
            in (s2\<lparr> jobs := updateJobStatus (cfg_jobId cfg) cancelled
                               (Some ''Cancelled by user'') (jobs s2) \<rparr>, True))
      else (s, False))"

text \<open>A run of \<^verbatim>\<open>crawlMultiPage\<close> in which \<^verbatim>\<open>cancelCrawlJob\<close> is called after \<open>n\<close>
  passes of the loop (while the loop waits in its politeness delay).\<close>

definition crawl_cancelled_after ::
  "nat \<Rightarrow> int \<Rightarrow> crawl_env \<Rightarrow> string \<Rightarrow> string \<Rightarrow> CrawlOptions \<Rightarrow> int
     \<Rightarrow> (string \<rightharpoonup> job_row) \<Rightarrow> crawl_state" where
  "crawl_cancelled_after n now env jid url options t0 tbl =
     (let cfg = crawl_defaults jid url options;
          s = (crawl_iter env cfg ^^ n) (crawl_start cfg t0 tbl)
      in crawl_finish env cfg (crawl_loop env cfg (fst (cancelCrawlJob cfg now s))))"

section \<open>Job manager\<close>

text \<open>
  Embedding of \<^verbatim>\<open>JobManager.getJobStatus\<close> and \<^verbatim>\<open>JobManager.cancelJob\<close>
  (\<^verbatim>\<open>core/queue/job-manager\<close>) over the \<^verbatim>\<open>jobs\<close> table. The queue is a collaborator
  (BullMQ): \<open>queue_ok\<close> says that looking the job up in its queue and removing it did
  not throw. An exception anywhere in \<^verbatim>\<open>cancelJob\<close> is caught and gives \<^verbatim>\<open>false\<close>.
\<close>

definition getJobStatus :: "string \<Rightarrow> (string \<rightharpoonup> job_row) \<Rightarrow> job_row option" where
  "getJobStatus jid tbl = tbl jid"

definition cancelJob ::
  "bool \<Rightarrow> string \<Rightarrow> (string \<rightharpoonup> job_row) \<Rightarrow> (string \<rightharpoonup> job_row) \<times> bool" where
  "cancelJob queue_ok jid tbl =
     (case getJobStatus jid tbl of
        None \<Rightarrow> (tbl, False)
      | Some jobData \<Rightarrow>
          if job_status jobData = completed then (tbl, False)
          else if \<not> queue_ok then (tbl, False)
          else (updateJobStatus jid cancelled None tbl, True))"

section \<open>Browser pool\<close>

text \<open>
  Embedding of \<^verbatim>\<open>BrowserManager\<close> (\<^verbatim>\<open>core/scraper/browser-manager\<close>). The field
  \<^verbatim>\<open>instances\<close> is a JavaScript \<^verbatim>\<open>Map\<close>: an association list in insertion order,
  without duplicate keys. The browser and context handles are left out; an instance is
  its \<^verbatim>\<open>inUse\<close> flag and its two dates.

  \<^verbatim>\<open>getBrowser\<close> is an \<^verbatim>\<open>async\<close> function. It runs without interruption between two
  \<^verbatim>\<open>await\<close>s, and other callers run while it waits. The model therefore splits a call
  at its \<^verbatim>\<open>await\<close>s: a call is at a program point (\<open>gb_pc\<close>), and \<open>gb_step\<close> runs it to
  its next \<^verbatim>\<open>await\<close> or to its end. What the outside world contributes to a call is a
  record: the clock reading, the id drawn in \<^verbatim>\<open>createBrowser\<close>, whether
  \<^verbatim>\<open>chromium.launch\<close> and \<^verbatim>\<open>newContext\<close> succeed, and which browsers close without
  an error. \<^verbatim>\<open>cleanupOldInstances\<close> is run in one piece.
\<close>

record BrowserInstance =
  inUse :: bool
  createdAt :: int
  lastUsed :: int

record BrowserManager =
  instances :: "(string \<times> BrowserInstance) list"
  maxInstances :: nat

record pool_env =
  pe_now :: int
  pe_newId :: string
  pe_launch_error :: "string option"
  pe_closes :: "string \<Rightarrow> bool"

text \<open>\<^verbatim>\<open>Map.prototype.set\<close>: an existing key keeps its place, a new key goes last.\<close>

fun map_set :: "string \<Rightarrow> 'v \<Rightarrow> (string \<times> 'v) list \<Rightarrow> (string \<times> 'v) list" where
  "map_set k v [] = [(k, v)]"
| "map_set k v ((k', v') # xs) = (if k' = k then (k, v) # xs else (k', v') # map_set k v xs)"

definition map_delete :: "string \<Rightarrow> (string \<times> 'v) list \<Rightarrow> (string \<times> 'v) list" where
  "map_delete k xs = filter (\<lambda>kv. fst kv \<noteq> k) xs"

definition closeBrowser :: "pool_env \<Rightarrow> string \<Rightarrow> BrowserManager \<Rightarrow> BrowserManager" where
  "closeBrowser env browserId m =
     (case map_of (instances m) browserId of
        None \<Rightarrow> m
      | Some instance \<Rightarrow>
          if pe_closes env browserId
          then m\<lparr> instances := map_delete browserId (instances m) \<rparr>
          else m)"

definition releaseBrowser :: "pool_env \<Rightarrow> string \<Rightarrow> BrowserManager \<Rightarrow> BrowserManager" where
  "releaseBrowser env browserId m =
     (case map_of (instances m) browserId of
        None \<Rightarrow> m
      | Some instance \<Rightarrow>
          m\<lparr> instances := map_set browserId
                (instance\<lparr> inUse := False, lastUsed := pe_now env \<rparr>) (instances m) \<rparr>)"

text \<open>\<^verbatim>\<open>cleanupOldInstances\<close>: idle instances not used for more than 30 minutes are
  closed.\<close>

definition maxAge :: int where
  "maxAge = 30 * 60 * 1000"

definition cleanupOldInstances :: "pool_env \<Rightarrow> BrowserManager \<Rightarrow> BrowserManager" where
  "cleanupOldInstances env m =
     foldl (\<lambda>m' (browserId, instance).
              if \<not> inUse instance \<and> pe_now env - lastUsed instance > maxAge
              then closeBrowser env browserId m' else m')
           m (instances m)"

datatype gb_pc =
    GB_Start
  | GB_AfterCleanup
  | GB_Launching string
  | GB_Created string
  | GB_Done "string + string"

text \<open>Lines 439 to 457 of \<^verbatim>\<open>getBrowser\<close>: take the first idle instance; else, below
  the limit, enter \<^verbatim>\<open>createBrowser\<close>, which draws an id and waits for the browser to
  launch; else throw.\<close>

definition reuse_or_create :: "pool_env \<Rightarrow> BrowserManager \<Rightarrow> BrowserManager \<times> gb_pc" where
  "reuse_or_create env m =
     (case find (\<lambda>kv. \<not> inUse (snd kv)) (instances m) of
        Some (browserId, instance) \<Rightarrow>
          (m\<lparr> instances := map_set browserId
                 (instance\<lparr> inUse := True, lastUsed := pe_now env \<rparr>) (instances m) \<rparr>,
           GB_Done (Inr browserId))
      | None \<Rightarrow>
          if length (instances m) < maxInstances m
          then (m, GB_Launching (pe_newId env))
          else (m, GB_Done (Inl ''No available browser instances and maximum limit reached'')))"

text \<open>One uninterrupted piece of a call of \<^verbatim>\<open>getBrowser\<close>.
  \<open>GB_Start\<close>: lines 435 to 437, and on to \<open>reuse_or_create\<close> when the pool is below its
  limit and nothing is awaited.
  \<open>GB_Launching\<close>: the launch is over; \<^verbatim>\<open>createBrowser\<close> throws, or stores the new
  instance with \<^verbatim>\<open>inUse: false\<close> and returns (lines 414 to 427).
  \<open>GB_Created\<close>: \<^verbatim>\<open>getBrowser\<close> resumes after \<^verbatim>\<open>await this.createBrowser()\<close> and marks
  the instance in use (lines 451 to 454); an instance removed in between makes
  \<^verbatim>\<open>instance.inUse = true\<close> throw a \<^verbatim>\<open>TypeError\<close>.\<close>

fun gb_step :: "pool_env \<Rightarrow> BrowserManager \<Rightarrow> gb_pc \<Rightarrow> BrowserManager \<times> gb_pc" where
  "gb_step env m GB_Start =
     (if length (instances m) \<ge> maxInstances m
      then (cleanupOldInstances env m, GB_AfterCleanup)
      else reuse_or_create env m)"
| "gb_step env m GB_AfterCleanup = reuse_or_create env m"
| "gb_step env m (GB_Launching browserId) =
     (case pe_launch_error env of
        Some msg \<Rightarrow> (m, GB_Done (Inl msg))
      | None \<Rightarrow>
          (m\<lparr> instances := map_set browserId
                 \<lparr> inUse = False, createdAt = pe_now env, lastUsed = pe_now env \<rparr>
                 (instances m) \<rparr>,
           GB_Created browserId))"
| "gb_step env m (GB_Created browserId) =
     (case map_of (instances m) browserId of
        None \<Rightarrow> (m, GB_Done (Inl ''TypeError''))
      | Some instance \<Rightarrow>
          (m\<lparr> instances := map_set browserId (instance\<lparr> inUse := True \<rparr>) (instances m) \<rparr>,
           GB_Done (Inr browserId)))"
| "gb_step env m (GB_Done r) = (m, GB_Done r)"

text \<open>A call of \<^verbatim>\<open>getBrowser\<close> that nothing interrupts: at most four pieces.\<close>

definition getBrowser :: "pool_env \<Rightarrow> BrowserManager \<Rightarrow> BrowserManager \<times> gb_pc" where
  "getBrowser env m =
     (let (m1, c1) = gb_step env m GB_Start;
          (m2, c2) = gb_step env m1 c1;
          (m3, c3) = gb_step env m2 c2
      in gb_step env m3 c3)"

text \<open>\<open>n\<close> pieces of a call run back to back.\<close>

fun gb_run :: "nat \<Rightarrow> pool_env \<Rightarrow> BrowserManager \<times> gb_pc \<Rightarrow> BrowserManager \<times> gb_pc" where
  "gb_run 0 env st = st"
| "gb_run (Suc n) env (m, c) = gb_run n env (gb_step env m c)"

text \<open>Several calls in flight on one pool. A schedule is a list of pairs: which call
  runs its next piece, and what the outside world contributes to it.\<close>

fun pool_step ::
  "BrowserManager \<times> gb_pc list \<Rightarrow> nat \<times> pool_env \<Rightarrow> BrowserManager \<times> gb_pc list" where
  "pool_step (m, calls) (i, env) =
     (if i < length calls
      then (let (m', c') = gb_step env m (calls ! i) in (m', calls[i := c']))
      else (m, calls))"

definition pool_run ::
  "(nat \<times> pool_env) list \<Rightarrow> BrowserManager \<times> gb_pc list \<Rightarrow> BrowserManager \<times> gb_pc list" where
  "pool_run schedule st = foldl pool_step st schedule"

definition instancesInUse :: "BrowserManager \<Rightarrow> nat" where
  "instancesInUse m = length (filter (\<lambda>kv. inUse (snd kv)) (instances m))"

text \<open>Two callers on an empty pool with \<^verbatim>\<open>maxInstances = 1\<close>.\<close>

definition caller_env :: "string \<Rightarrow> int \<Rightarrow> pool_env" where
  "caller_env browserId now =
     \<lparr> pe_now = now, pe_newId = browserId, pe_launch_error = None, pe_closes = (\<lambda>_. True) \<rparr>"

definition single_pool :: BrowserManager where
  "single_pool = \<lparr> instances = [], maxInstances = 1 \<rparr>"

text \<open>Operations that run one after the other, none starting before the one before it
  has returned.\<close>

datatype pool_op =
    GetBrowser pool_env
  | ReleaseBrowser pool_env string
  | CloseBrowser pool_env string

fun apply_pool_op :: "BrowserManager \<Rightarrow> pool_op \<Rightarrow> BrowserManager" where
  "apply_pool_op m (GetBrowser env) = fst (getBrowser env m)"
| "apply_pool_op m (ReleaseBrowser env browserId) = releaseBrowser env browserId m"
| "apply_pool_op m (CloseBrowser env browserId) = closeBrowser env browserId m"

text \<open>What \<^verbatim>\<open>getBrowser\<close> does when read from top to bottom, as one sequential
  function: the pool is cleaned when it is at its limit; then (\<open>acquire\<close>) the first
  idle instance is taken; else, below the limit, a browser is created; else the call
  throws.\<close>

definition acquire :: "pool_env \<Rightarrow> BrowserManager \<Rightarrow> BrowserManager \<times> gb_pc" where
  "acquire env m =
     (case find (\<lambda>kv. \<not> inUse (snd kv)) (instances m) of
        Some (browserId, instance) \<Rightarrow>
          (m\<lparr> instances := map_set browserId
                 (instance\<lparr> inUse := True, lastUsed := pe_now env \<rparr>) (instances m) \<rparr>,
           GB_Done (Inr browserId))
      | None \<Rightarrow>
          if length (instances m) < maxInstances m
          then (case pe_launch_error env of
                  Some msg \<Rightarrow> (m, GB_Done (Inl msg))
                | None \<Rightarrow>
                    (m\<lparr> instances := map_set (pe_newId env)
                           \<lparr> inUse = True, createdAt = pe_now env, lastUsed = pe_now env \<rparr>
                           (instances m) \<rparr>,
                     GB_Done (Inr (pe_newId env))))
          else (m, GB_Done (Inl ''No available browser instances and maximum limit reached'')))"

definition getBrowser_policy :: "pool_env \<Rightarrow> BrowserManager \<Rightarrow> BrowserManager \<times> gb_pc" where
  "getBrowser_policy env m =
     acquire env (if length (instances m) \<ge> maxInstances m
                  then cleanupOldInstances env m else m)"

section \<open>Link normalizer\<close>

text \<open>
  Embedding of \<^verbatim>\<open>LinkExtractor.normalizeUrl\<close> and \<^verbatim>\<open>LinkExtractor.deduplicateLinks\<close>
  (\<^verbatim>\<open>core/scraper/link-extractor\<close>). The two methods work on the platform's \<^verbatim>\<open>URL\<close>
  and \<^verbatim>\<open>URLSearchParams\<close> objects, which are not part of the repository. They are
  modelled here for plain absolute URLs, \<^verbatim>\<open>http://host/path?query#fragment\<close> or the same
  with \<^verbatim>\<open>https\<close>, written in lower case with characters that the platform neither
  encodes nor decodes (letters, digits, \<^verbatim>\<open>/\<close>, \<^verbatim>\<open>.\<close>, \<^verbatim>\<open>-\<close>, \<^verbatim>\<open>_\<close>), without
  credentials, port or dot segments: on these the platform keeps every component as it
  is written. On any other string \<open>parse_url\<close> answers \<open>None\<close>, which stands for the
  constructor throwing.
\<close>

record URL =
  origin_part :: string
  pathname :: string
  query :: "string option"
  fragment :: "string option"

definition starts_with :: "string \<Rightarrow> string \<Rightarrow> bool" where
  "starts_with p s \<longleftrightarrow> take (length p) s = p"

text \<open>The part before the first \<open>c\<close>, and the part after it when there is one.\<close>

definition split_first :: "char \<Rightarrow> string \<Rightarrow> string \<times> string option" where
  "split_first c s =
     (takeWhile (\<lambda>x. x \<noteq> c) s,
      case dropWhile (\<lambda>x. x \<noteq> c) s of [] \<Rightarrow> None | _ # rest \<Rightarrow> Some rest)"

definition parse_after_scheme :: "string \<Rightarrow> string \<Rightarrow> URL option" where
  "parse_after_scheme scheme s =
     (let (before_hash, frag) = split_first CHR ''#'' s;
          (before_query, q) = split_first CHR ''?'' before_hash;
          host = takeWhile (\<lambda>x. x \<noteq> CHR ''/'') before_query;
          path = dropWhile (\<lambda>x. x \<noteq> CHR ''/'') before_query
      in if host = [] then None
         else Some \<lparr> origin_part = scheme @ host,
                     pathname = (if path = [] then ''/'' else path),
                     query = q, fragment = frag \<rparr>)"

definition parse_url :: "string \<Rightarrow> URL option" where
  "parse_url s =
     (if starts_with ''http://'' s then parse_after_scheme ''http://'' (drop 7 s)
      else if starts_with ''https://'' s then parse_after_scheme ''https://'' (drop 8 s)
      else None)"

text \<open>The \<^verbatim>\<open>href\<close> getter.\<close>

definition href :: "URL \<Rightarrow> string" where
  "href u = origin_part u @ pathname u
     @ (case query u of None \<Rightarrow> [] | Some q \<Rightarrow> CHR ''?'' # q)
     @ (case fragment u of None \<Rightarrow> [] | Some f \<Rightarrow> CHR ''#'' # f)"

fun split_on :: "char \<Rightarrow> string \<Rightarrow> string list" where
  "split_on c [] = [[]]"
| "split_on c (x # xs) =
     (if x = c then [] # split_on c xs
      else (case split_on c xs of [] \<Rightarrow> [[x]] | p # ps \<Rightarrow> (x # p) # ps))"

text \<open>The \<^verbatim>\<open>searchParams\<close> getter: the pairs of the query string, in order; empty pieces
  are skipped and a piece without \<^verbatim>\<open>=\<close> has the empty value.\<close>

definition searchParams :: "URL \<Rightarrow> (string \<times> string) list" where
  "searchParams u =
     (case query u of
        None \<Rightarrow> []
      | Some q \<Rightarrow>
          map (\<lambda>piece. case split_first CHR ''='' piece of
                          (name, None) \<Rightarrow> (name, [])
                        | (name, Some v) \<Rightarrow> (name, v))
              (filter (\<lambda>piece. piece \<noteq> []) (split_on CHR ''&'' q)))"

text \<open>\<^verbatim>\<open>URLSearchParams.keys\<close>, \<^verbatim>\<open>getAll\<close> and \<^verbatim>\<open>toString\<close>.\<close>

definition keys :: "(string \<times> string) list \<Rightarrow> string list" where
  "keys params = map fst params"

definition getAll :: "(string \<times> string) list \<Rightarrow> string \<Rightarrow> string list" where
  "getAll params name = map snd (filter (\<lambda>kv. fst kv = name) params)"

fun toString :: "(string \<times> string) list \<Rightarrow> string" where
  "toString [] = []"
| "toString [(k, v)] = k @ CHR ''='' # v"
| "toString ((k, v) # kvs) = k @ CHR ''='' # v @ CHR ''&'' # toString kvs"

text \<open>The \<^verbatim>\<open>search\<close> setter: the empty string removes the query.\<close>

definition set_search :: "string \<Rightarrow> URL \<Rightarrow> URL" where
  "set_search v u = u\<lparr> query := (if v = [] then None else Some v) \<rparr>"

text \<open>\<^verbatim>\<open>normalizeUrl\<close> (lines 989 to 1018). \<^verbatim>\<open>Array.prototype.sort\<close>
  without a comparator orders strings by their code units; \<^verbatim>\<open>paramNames\<close> is the sorted
  list of all keys, a key that occurs twice being in it twice.\<close>

definition normalizeUrl :: "string \<Rightarrow> string" where
  "normalizeUrl url =
     (case parse_url url of
        None \<Rightarrow> url
      | Some urlObj \<Rightarrow>
          (let u1 = urlObj\<lparr> fragment := None \<rparr>;
               u2 = (if length (pathname u1) > 1 \<and> last (pathname u1) = CHR ''/''
                     then u1\<lparr> pathname := butlast (pathname u1) \<rparr> else u1);
               paramNames = sort (keys (searchParams u2));
               sortedParams =
                 concat (map (\<lambda>name. map (\<lambda>v. (name, v)) (getAll (searchParams u2) name))
                             paramNames);
               u3 = set_search (toString sortedParams) u2
           in href u3))"

text \<open>\<^verbatim>\<open>[...new Set(xs)]\<close>: the first occurrence of every element, in order.\<close>

fun unique :: "string list \<Rightarrow> string list" where
  "unique [] = []"
| "unique (x # xs) = x # unique (filter (\<lambda>y. y \<noteq> x) xs)"

definition deduplicateLinks :: "string list \<Rightarrow> string list" where
  "deduplicateLinks links = unique (map normalizeUrl links)"

section \<open>A small site\<close>

text \<open>
  A site for the scenarios of the specification: \<open>A\<close> links to \<open>B\<close>, \<open>C\<close>, \<open>D\<close> and to
  \<open>B\<close> a second time; the attempt on \<open>B\<close> throws an error with message \<open>msg\<close>; every
  other page links to \<open>E\<close>. In \<open>site_env\<close> the error is a navigation timeout. The jobs
  table holds one pending crawl job.
\<close>

definition site_failing :: "string \<Rightarrow> crawl_env" where
  "site_failing msg =
     \<lparr> scrape = (\<lambda>k u. if u = ''http://a.test/A''
                         then Inr (200, [''http://a.test/B'', ''http://a.test/C'',
                                         ''http://a.test/D'', ''http://a.test/B''])
                         else if u = ''http://a.test/B'' then Inl msg
                         else Inr (200, [''http://a.test/E''])),
       clock = (\<lambda>k i. 1000 * int k + int i) \<rparr>"

definition site_env :: crawl_env where
  "site_env = site_failing ''Navigation timeout''"

definition site_jobs :: "string \<rightharpoonup> job_row" where
  "site_jobs = [''job-1'' \<mapsto> \<lparr> job_type = ''crawl'', job_status = pending, error_message = None \<rparr>]"

definition crawl_options :: "rat \<Rightarrow> rat \<Rightarrow> CrawlOptions" where
  "crawl_options depth budget =
     \<lparr> co_maxDepth = Some depth, co_maxPages = Some budget, co_enableProgressTracking = None,
       co_enableStdoutUpdates = None, co_stdoutVerbosity = None \<rparr>"

text \<open>Options that both request schemas accept: a budget of two and a half pages, and a
  depth limit of one and a half.\<close>

definition fractional_budget :: CrawlOptions where
  "fractional_budget = crawl_options 1 (5 / 2)"

definition fractional_depth :: CrawlOptions where
  "fractional_depth = crawl_options (3 / 2) 10"

section \<open>Properties of the progress tracker\<close>

lemma calculateProgress_counters [simp]:
  "pagesProcessed (calculateProgress opts p) = pagesProcessed p"
  "pagesSuccessful (calculateProgress opts p) = pagesSuccessful p"
  "pagesFailed (calculateProgress opts p) = pagesFailed p"
  "errors (calculateProgress opts p) = errors p"
  "maxPages (calculateProgress opts p) = maxPages p"
  "startTime (calculateProgress opts p) = startTime p"
  "currentTime (calculateProgress opts p) = currentTime p"
  by (simp_all add: calculateProgress_def Let_def)

lemma emitUpdate_fields [simp]:
  "pagesProcessed (emitUpdate opts b p) = pagesProcessed p"
  "pagesSuccessful (emitUpdate opts b p) = pagesSuccessful p"
  "pagesFailed (emitUpdate opts b p) = pagesFailed p"
  "errors (emitUpdate opts b p) = errors p"
  "maxPages (emitUpdate opts b p) = maxPages p"
  "startTime (emitUpdate opts b p) = startTime p"
  "currentTime (emitUpdate opts b p) = currentTime p"
  "progressPercentage (emitUpdate opts b p) = progressPercentage p"
  "pagesPerMinute (emitUpdate opts b p) = pagesPerMinute p"
  "estimatedTimeRemaining (emitUpdate opts b p) = estimatedTimeRemaining p"
  by (simp_all add: emitUpdate_def)

lemma counters_ok_init: "counters_ok (initializeProgress opts t0)"
  by (simp add: counters_ok_def initializeProgress_def)

lemma counters_ok_event: "counters_ok p \<Longrightarrow> counters_ok (apply_event opts p e)"
proof (cases e)
  case (Pair now ev)
  assume ok: "counters_ok p"
  show ?thesis
  proof (cases ev)
    case (PageCompleted url n)
    with Pair ok show ?thesis
      by (simp add: counters_ok_def pageCompleted_def Let_def)
  next
    case (PageFailed url msg)
    with Pair ok show ?thesis
      by (simp add: counters_ok_def pageFailed_def Let_def)
  qed (use Pair ok in \<open>simp_all add: counters_ok_def startProcessingPage_def urlsDiscovered_def
        updateQueueStatus_def markCompleted_def markFailed_def\<close>)
qed

lemma counters_ok_foldl: "counters_ok p \<Longrightarrow> counters_ok (foldl (apply_event opts) p evs)"
  by (induction evs arbitrary: p) (simp_all add: counters_ok_event)

text \<open>
  C10. In every tracker state reached from \<^verbatim>\<open>initializeProgress\<close> by any sequence of
  the seven events, at any clock readings, \<^verbatim>\<open>pagesProcessed\<close> is the sum of
  \<^verbatim>\<open>pagesSuccessful\<close> and \<^verbatim>\<open>pagesFailed\<close>, and the error list has exactly
  \<^verbatim>\<open>pagesFailed\<close> entries.
\<close>

theorem tracker_counters_consistent:
  "pagesProcessed (run_events opts t0 evs)
     = pagesSuccessful (run_events opts t0 evs) + pagesFailed (run_events opts t0 evs)
   \<and> length (errors (run_events opts t0 evs)) = pagesFailed (run_events opts t0 evs)"
proof -
  have "counters_ok (run_events opts t0 evs)"
    unfolding run_events_def by (rule counters_ok_foldl [OF counters_ok_init])
  then show ?thesis
    by (simp add: counters_ok_def)
qed

lemma calculateProgress_percentage:
  "progressPercentage (calculateProgress opts p) = percentage_of (pagesProcessed p) (maxPages p)"
  by (simp add: calculateProgress_def Let_def)

lemma calculateProgress_pagesPerMinute:
  "pagesPerMinute (calculateProgress opts p) =
     (if 0 < js_div (of_int (currentTime p - startTime p)) (1000 * 60)
      then js_round (js_div (of_nat (pagesProcessed p))
             (js_div (of_int (currentTime p - startTime p)) (1000 * 60)))
      else pagesPerMinute p)"
  by (simp add: calculateProgress_def Let_def)

lemma calculateProgress_eta:
  "estimatedTimeRemaining (calculateProgress opts p) =
     (if useSmartEstimation opts \<and> minPagesForEstimation opts \<le> pagesProcessed p
         \<and> 0 < pagesPerMinute (calculateProgress opts p)
      then Some (js_round (js_mul (js_mul
             (js_div (js_sub (maxPages p) (of_nat (pagesProcessed p)))
                     (of_int (pagesPerMinute (calculateProgress opts p)))) 60) 1000))
      else estimatedTimeRemaining p)"
  by (simp add: calculateProgress_def Let_def)

lemma percentage_of_pos:
  "m \<noteq> 0 \<Longrightarrow>
     percentage_of n m = Fin (min 100 (js_round (js_mul (js_div (of_nat n) m) 100)))"
  by (simp add: percentage_of_def min.commute)

lemma foldl_replicate_Suc:
  "foldl f a (replicate (Suc n) x) = f (foldl f a (replicate n x)) x"
proof -
  have "replicate (Suc n) x = replicate n x @ [x]"
    by (simp add: replicate_append_same)
  then show ?thesis
    by (simp del: replicate.simps)
qed

lemma run_completed_pages:
  "pagesProcessed (run_events opts t0 (replicate n (t, PageCompleted u 0))) = n"
  "maxPages (run_events opts t0 (replicate n (t, PageCompleted u 0))) = opt_maxPages opts"
proof (induction n)
  case 0
  show "pagesProcessed (run_events opts t0 (replicate 0 (t, PageCompleted u 0))) = 0"
    and "maxPages (run_events opts t0 (replicate 0 (t, PageCompleted u 0))) = opt_maxPages opts"
    by (simp_all add: run_events_def initializeProgress_def)
next
  case (Suc n)
  show "pagesProcessed (run_events opts t0 (replicate (Suc n) (t, PageCompleted u 0))) = Suc n"
    using Suc(1) unfolding run_events_def foldl_replicate_Suc
    by (simp add: pageCompleted_def Let_def)
  show "maxPages (run_events opts t0 (replicate (Suc n) (t, PageCompleted u 0))) = opt_maxPages opts"
    using Suc(2) unfolding run_events_def foldl_replicate_Suc
    by (simp add: pageCompleted_def Let_def)
qed

lemma run_completed_percentage:
  "progressPercentage (run_events opts t0 (replicate (Suc n) (t, PageCompleted u 0)))
     = percentage_of (Suc n) (opt_maxPages opts)"
  using run_completed_pages [of opts t0 n t u]
  unfolding run_events_def foldl_replicate_Suc
  by (simp add: pageCompleted_def Let_def calculateProgress_percentage)

text \<open>
  C8 as stated fails. \<^verbatim>\<open>markCompleted\<close> sets the percentage to 100 whatever the
  counters are: right after initialisation with a budget of ten pages the formula gives 0
  and the snapshot says 100. \<^verbatim>\<open>pagesPerMinute\<close> is rounded: one page after ninety
  seconds is stored as 1 page per minute, not 2/3. And the quotient and the product of
  the percentage are doubles: for 23 pages of 40 the exact value is 57.5, which rounds to
  58, but the double product is just below 57.5 and the snapshot says 57.
\<close>

theorem metrics_formula_counterexample:
  "progressPercentage
     (apply_event (example_options 10) (initializeProgress (example_options 10) 0)
        (5, MarkCompleted))
     = Fin 100
   \<and> min 100 (js_round
       (of_nat (pagesProcessed
          (apply_event (example_options 10) (initializeProgress (example_options 10) 0)
             (5, MarkCompleted)))
        / maxPages
          (apply_event (example_options 10) (initializeProgress (example_options 10) 0)
             (5, MarkCompleted))
        * 100)) = 0
   \<and> pagesPerMinute
       (apply_event (example_options 10) (initializeProgress (example_options 10) 0)
          (90000, PageCompleted ''http://a.test/'' 0)) = 1
   \<and> (of_nat (pagesProcessed
          (apply_event (example_options 10) (initializeProgress (example_options 10) 0)
             (90000, PageCompleted ''http://a.test/'' 0))) :: rat)
       / (of_int (90000 - 0) / (1000 * 60)) = 2 / 3
   \<and> pagesProcessed
       (run_events (example_options 40) 0 (replicate 23 (1000, PageCompleted ''http://a.test/'' 0)))
       = 23
   \<and> progressPercentage
       (run_events (example_options 40) 0 (replicate 23 (1000, PageCompleted ''http://a.test/'' 0)))
       = Fin 57
   \<and> min 100 (js_round (of_nat 23 / 40 * 100)) = 58"
proof -
  note defs = example_options_def initializeProgress_def markCompleted_def pageCompleted_def
    emitUpdate_def Let_def
  have z: "js_round 0 = 0"
    by code_simp
  have a: "progressPercentage
     (apply_event (example_options 10) (initializeProgress (example_options 10) 0)
        (5, MarkCompleted)) = Fin 100"
    by (simp add: defs)
  have b: "min 100 (js_round
       (of_nat (pagesProcessed
          (apply_event (example_options 10) (initializeProgress (example_options 10) 0)
             (5, MarkCompleted)))
        / maxPages
          (apply_event (example_options 10) (initializeProgress (example_options 10) 0)
             (5, MarkCompleted))
        * 100)) = 0"
    using z by (simp add: defs)
  have "0 < js_div 90000 60000" and "js_round (js_div 1 (js_div 90000 60000)) = 1"
    by code_simp+
  then have c: "pagesPerMinute
       (apply_event (example_options 10) (initializeProgress (example_options 10) 0)
          (90000, PageCompleted ''http://a.test/'' 0)) = 1"
    by (simp add: defs calculateProgress_pagesPerMinute)
  have d: "(of_nat (pagesProcessed
          (apply_event (example_options 10) (initializeProgress (example_options 10) 0)
             (90000, PageCompleted ''http://a.test/'' 0))) :: rat)
       / (of_int (90000 - 0) / (1000 * 60)) = 2 / 3"
    by (simp add: defs)
  have e: "pagesProcessed
       (run_events (example_options 40) 0 (replicate 23 (1000, PageCompleted ''http://a.test/'' 0)))
       = 23"
    by (simp add: run_completed_pages)
  have "percentage_of 23 40 = Fin 57"
    by code_simp
  then have f: "progressPercentage
       (run_events (example_options 40) 0 (replicate 23 (1000, PageCompleted ''http://a.test/'' 0)))
       = Fin 57"
    using run_completed_percentage [of "example_options 40" 0 22 1000 "''http://a.test/''"]
    by (simp add: example_options_def)
  have g: "min 100 (js_round (of_nat 23 / 40 * 100)) = 58"
    by code_simp
  from a b c d e f g show ?thesis
    by blast
qed

text \<open>
  C8, amended. Let \<open>p'\<close> be the snapshot after an event at clock reading \<open>now\<close>, for a
  page budget other than 0 (whole or not), and let quotients, products and differences
  be those of doubles. After
  \<^verbatim>\<open>startProcessingPage\<close>, \<^verbatim>\<open>pageCompleted\<close>, \<^verbatim>\<open>pageFailed\<close> and
  \<^verbatim>\<open>updateQueueStatus\<close> (the events that recalculate) the percentage is
  \<open>min(100, round((pagesProcessed / maxPages) * 100))\<close>; \<^verbatim>\<open>markCompleted\<close> sets it to
  100; \<^verbatim>\<open>urlsDiscovered\<close> and \<^verbatim>\<open>markFailed\<close> leave it as it was. A recalculating event
  stores \<open>pagesPerMinute = round(pagesProcessed / elapsedMinutes)\<close> when the elapsed time is
  positive, and it stores \<open>estimatedTimeRemaining\<close>, in milliseconds,
  \<open>round(((maxPages - pagesProcessed) / pagesPerMinute) * 60 * 1000)\<close> only when smart
  estimation is on, \<open>pagesProcessed\<close> has reached \<^verbatim>\<open>minPagesForEstimation\<close> and the
  stored rate is positive. In every other case the two values are left unchanged.
\<close>

theorem metrics_after_event:
  assumes "maxPages p \<noteq> 0"
  shows
   "progressPercentage (apply_event opts p (now, ev)) =
      (if recalculates ev
       then Fin (min 100 (js_round (js_mul
              (js_div (of_nat (pagesProcessed (apply_event opts p (now, ev))))
                      (maxPages (apply_event opts p (now, ev)))) 100)))
       else if ev = MarkCompleted then Fin 100
       else progressPercentage p)
    \<and> pagesPerMinute (apply_event opts p (now, ev)) =
      (if recalculates ev \<and> 0 < js_div (of_int (now - startTime p)) (1000 * 60)
       then js_round (js_div (of_nat (pagesProcessed (apply_event opts p (now, ev))))
              (js_div (of_int (now - startTime p)) (1000 * 60)))
       else pagesPerMinute p)
    \<and> estimatedTimeRemaining (apply_event opts p (now, ev)) =
      (if recalculates ev \<and> useSmartEstimation opts
          \<and> minPagesForEstimation opts \<le> pagesProcessed (apply_event opts p (now, ev))
          \<and> 0 < pagesPerMinute (apply_event opts p (now, ev))
       then Some (js_round (js_mul (js_mul
              (js_div (js_sub (maxPages p) (of_nat (pagesProcessed (apply_event opts p (now, ev)))))
                      (of_int (pagesPerMinute (apply_event opts p (now, ev))))) 60) 1000))
       else estimatedTimeRemaining p)"
proof (cases ev)
  case (StartProcessingPage url depth)
  with assms show ?thesis
    by (simp add: startProcessingPage_def calculateProgress_percentage percentage_of_pos
        calculateProgress_pagesPerMinute calculateProgress_eta)
next
  case (PageCompleted url n)
  with assms show ?thesis
    by (simp add: pageCompleted_def Let_def calculateProgress_percentage percentage_of_pos
        calculateProgress_pagesPerMinute calculateProgress_eta)
next
  case (PageFailed url msg)
  with assms show ?thesis
    by (simp add: pageFailed_def Let_def calculateProgress_percentage percentage_of_pos
        calculateProgress_pagesPerMinute calculateProgress_eta)
next
  case (UrlsDiscovered urls depth)
  then show ?thesis
    by (simp add: urlsDiscovered_def)
next
  case (UpdateQueueStatus n)
  with assms show ?thesis
    by (simp add: updateQueueStatus_def calculateProgress_percentage percentage_of_pos
        calculateProgress_pagesPerMinute calculateProgress_eta)
next
  case MarkCompleted
  then show ?thesis
    by (simp add: markCompleted_def)
next
  case (MarkFailed reason)
  then show ?thesis
    by (simp add: markFailed_def)
qed

theorem metrics_after_event_witness:
  fixes P :: CrawlProgress and ev :: tracker_event
  defines "P \<equiv> run_events (example_options 10) 0
     [(30000, PageCompleted ''http://a.test/'' 2), (60000, PageFailed ''http://a.test/b'' ''timeout'')]"
  defines "ev \<equiv> PageCompleted ''http://a.test/c'' 0"
  shows "maxPages P \<noteq> 0
   \<and> recalculates ev
   \<and> progressPercentage (apply_event (example_options 10) P (90000, ev)) = Fin 30
   \<and> pagesPerMinute (apply_event (example_options 10) P (90000, ev)) = 2
   \<and> estimatedTimeRemaining (apply_event (example_options 10) P (90000, ev)) = Some 210000"
proof -
  note defs = run_events_def example_options_def initializeProgress_def pageCompleted_def
    pageFailed_def Let_def
  have st: "startTime P = 0" and mp: "maxPages P = 10" and pp: "pagesProcessed P = 2"
    unfolding P_def by (simp_all add: defs)
  have h: "maxPages P \<noteq> 0"
    by (simp add: mp)
  have r: "recalculates ev"
    unfolding ev_def by simp
  have n: "pagesProcessed (apply_event (example_options 10) P (90000, ev)) = 3"
    and m: "maxPages (apply_event (example_options 10) P (90000, ev)) = 10"
    unfolding ev_def by (simp_all add: pageCompleted_def Let_def pp mp)
  have o: "useSmartEstimation (example_options 10)" "minPagesForEstimation (example_options 10) = 3"
    by (simp_all add: example_options_def)
  have v1: "js_round (js_mul (js_div 3 10) 100) = 30"
    and v2: "0 < js_div 90000 60000"
    and v3: "js_round (js_div 3 (js_div 90000 60000)) = 2"
    and v4: "js_round (js_mul (js_mul (js_div (js_sub 10 3) 2) 60) 1000) = 210000"
    by code_simp+
  note t = metrics_after_event [OF h, of "example_options 10" 90000 ev]
  have a: "progressPercentage (apply_event (example_options 10) P (90000, ev)) = Fin 30"
    using t r unfolding n m by (simp add: v1)
  have b: "pagesPerMinute (apply_event (example_options 10) P (90000, ev)) = 2"
    using t r v2 unfolding n st by (simp add: v3)
  have c: "estimatedTimeRemaining (apply_event (example_options 10) P (90000, ev)) = Some 210000"
    using t r unfolding n mp b by (simp add: o v4)
  from h r a b c show ?thesis
    by blast
qed

section \<open>Properties of the crawl engine\<close>

subsection \<open>What one pass of the loop does to each part of the state\<close>

lemma tracker_pagesProcessed [simp]:
  "pagesProcessed (startProcessingPage opts now url depth p) = pagesProcessed p"
  "pagesProcessed (pageCompleted opts now url n p) = pagesProcessed p + 1"
  "pagesProcessed (pageFailed opts now url msg p) = pagesProcessed p + 1"
  "pagesProcessed (urlsDiscovered opts now urls depth p) = pagesProcessed p"
  "pagesProcessed (updateQueueStatus opts now n p) = pagesProcessed p"
  "pagesProcessed (markCompleted opts now p) = pagesProcessed p"
  "pagesProcessed (markFailed opts now reason p) = pagesProcessed p"
  by (simp_all add: startProcessingPage_def pageCompleted_def pageFailed_def urlsDiscovered_def
      updateQueueStatus_def markCompleted_def markFailed_def Let_def)

lemma process_page_crawled:
  "crawled (process_page env cfg e s) = insert (fe_url e) (crawled s)"
  by (simp add: process_page_def Let_def split: sum.splits prod.splits)

lemma process_page_toCrawl:
  "toCrawl (process_page env cfg e s) =
     (case scrape env (length (results s)) (fe_url e) of
        Inl _ \<Rightarrow> toCrawl s
      | Inr r \<Rightarrow>
          if of_nat (fe_depth e) < cfg_maxDepth cfg
          then fst (enqueue (insert (fe_url e) (crawled s)) (fe_depth e + 1) (snd r) (toCrawl s, []))
          else toCrawl s)"
  by (simp add: process_page_def Let_def split: sum.splits prod.splits)

lemma process_page_pages:
  "pages (process_page env cfg e s) =
     (case scrape env (length (results s)) (fe_url e) of
        Inl m \<Rightarrow> storePageResult (fe_url e) (fe_depth e) None 0 (Some m) (pages s)
      | Inr r \<Rightarrow> storePageResult (fe_url e) (fe_depth e) (Some (fst r)) (length (snd r)) None
                   (pages s))"
  by (simp add: process_page_def Let_def split: sum.splits prod.splits)

lemma storePageResult_urls:
  "map row_url (storePageResult url depth scrapeResult linksFound errorMessage rows)
     = map row_url rows @ [url]"
  by (simp add: storePageResult_def Let_def)

lemma process_page_page_urls:
  "map row_url (pages (process_page env cfg e s)) = map row_url (pages s) @ [fe_url e]"
  by (simp add: process_page_pages storePageResult_urls split: sum.splits)

lemma process_page_scraped:
  "scraped (process_page env cfg e s) = scraped s @ [fe_url e]"
  by (simp add: process_page_def Let_def split: sum.splits prod.splits)

lemma process_page_jobs:
  "jobs (process_page env cfg e s) = jobs s"
  by (simp add: process_page_def Let_def split: sum.splits prod.splits)

lemma process_page_pagesProcessed:
  "map_option pagesProcessed (progressTracker (process_page env cfg e s)) =
     map_option (\<lambda>p. pagesProcessed p + 1) (progressTracker s)"
  by (cases "progressTracker s")
     (simp_all add: process_page_def Let_def split: sum.splits prod.splits)

subsection \<open>The queue\<close>

lemma max0_succ_pos [simp]: "(0::rat) < max 0 m + 1"
  by (simp add: add_nonneg_pos)

text \<open>The queue holds no URL twice and no crawled URL, and the depth of an entry is below
  \<open>m + 1\<close> (the start entry has depth 0, whatever \<open>m\<close> is).\<close>

definition frontier_ok :: "string set \<Rightarrow> rat \<Rightarrow> FrontierEntry list \<Rightarrow> bool" where
  "frontier_ok cr m q \<longleftrightarrow>
     distinct (map fe_url q) \<and> fe_url ` set q \<inter> cr = {}
     \<and> (\<forall>e \<in> set q. of_nat (fe_depth e) < max 0 m + 1)"

lemma enqueue_frontier_ok:
  "frontier_ok cr m q \<Longrightarrow> of_nat d < max 0 m + 1 \<Longrightarrow>
     frontier_ok cr m (fst (enqueue cr d links (q, new)))"
proof (induction links arbitrary: q new)
  case Nil
  then show ?case by simp
next
  case (Cons link links)
  show ?case
  proof (cases "link \<notin> cr \<and> \<not> list_ex (\<lambda>item. fe_url item = link) q")
    case True
    then have "link \<notin> fe_url ` set q"
      by (auto simp: list_ex_iff)
    with True Cons.prems
    have "frontier_ok cr m (q @ [\<lparr> fe_url = link, fe_depth = d \<rparr>])"
      by (auto simp: frontier_ok_def)
    from Cons.IH [OF this Cons.prems(2)] True show ?thesis
      by simp
  next
    case False
    with Cons.IH [OF Cons.prems] show ?thesis
      by auto
  qed
qed

lemma frontier_ok_pop:
  assumes "frontier_ok cr m (e # rest)"
  shows "frontier_ok cr m rest" and "frontier_ok (insert (fe_url e) cr) m rest"
  using assms by (auto simp: frontier_ok_def)

subsection \<open>The invariant of the traversal\<close>

definition crawl_inv :: "crawl_config \<Rightarrow> crawl_state \<Rightarrow> bool" where
  "crawl_inv cfg s \<longleftrightarrow>
     of_nat (length (results s)) < max 0 (cfg_maxPages cfg) + 1
     \<and> (\<forall>r \<in> set (results s). of_nat (pr_depth r) \<le> cfg_maxDepth cfg)
     \<and> distinct (map pr_url (results s))
     \<and> set (map pr_url (results s)) = crawled s
     \<and> frontier_ok (crawled s) (cfg_maxDepth cfg) (toCrawl s)
     \<and> map row_url (pages s) = map pr_url (results s)
     \<and> scraped s = map pr_url (results s)
     \<and> map_option pagesProcessed (progressTracker s)
         = map_option (\<lambda>_. length (results s)) (progressTracker s)"

lemma crawl_inv_start: "crawl_inv cfg (crawl_start cfg t0 tbl)"
  by (simp add: crawl_inv_def crawl_start_def frontier_ok_def initializeProgress_def)

lemma crawl_inv_body:
  assumes inv: "crawl_inv cfg s" and g: "loop_guard cfg s"
  shows "crawl_inv cfg (crawl_body env cfg s)"
proof (cases "toCrawl s")
  case Nil
  with g show ?thesis by (simp add: loop_guard_def)
next
  case (Cons e rest)
  from inv Cons have fr: "frontier_ok (crawled s) (cfg_maxDepth cfg) (e # rest)"
    by (simp add: crawl_inv_def)
  show ?thesis
  proof (cases "fe_url e \<in> crawled s \<or> cfg_maxDepth cfg < of_nat (fe_depth e)")
    case True
    with Cons inv frontier_ok_pop(1) [OF fr] show ?thesis
      by (simp add: crawl_body_def crawl_inv_def)
  next
    case False
    let ?s1 = "s\<lparr>toCrawl := rest\<rparr>"
    let ?s' = "process_page env cfg e ?s1"
    have body: "crawl_body env cfg s = ?s'"
      using Cons False by (simp add: crawl_body_def)
    have fr1: "frontier_ok (insert (fe_url e) (crawled s)) (cfg_maxDepth cfg) rest"
      by (rule frontier_ok_pop(2) [OF fr])
    have q: "frontier_ok (crawled ?s') (cfg_maxDepth cfg) (toCrawl ?s')"
    proof (cases "scrape env (length (results s)) (fe_url e)")
      case (Inl msg)
      with fr1 show ?thesis
        by (simp add: process_page_crawled process_page_toCrawl)
    next
      case (Inr r)
      show ?thesis
      proof (cases "of_nat (fe_depth e) < cfg_maxDepth cfg")
        case True
        then have "of_nat (fe_depth e + 1) < max 0 (cfg_maxDepth cfg) + 1" by simp
        from enqueue_frontier_ok [OF fr1 this] Inr True show ?thesis
          by (simp add: process_page_crawled process_page_toCrawl)
      next
        case False
        with fr1 Inr show ?thesis
          by (simp add: process_page_crawled process_page_toCrawl)
      qed
    qed
    have new: "fe_url e \<notin> set (map pr_url (results s))"
      using inv False by (simp add: crawl_inv_def)
    have "of_nat (length (results s)) < cfg_maxPages cfg"
      using g by (simp add: loop_guard_def)
    then have len: "of_nat (length (results ?s')) < max 0 (cfg_maxPages cfg) + 1"
      by (simp add: process_page_results)
    have tr: "map_option pagesProcessed (progressTracker ?s')
                = map_option (\<lambda>_. length (results ?s')) (progressTracker ?s')"
    proof (cases "progressTracker s")
      case None
      then have "map_option pagesProcessed (progressTracker ?s') = None"
        by (simp add: process_page_pagesProcessed)
      then show ?thesis by simp
    next
      case (Some p)
      with inv have pp: "pagesProcessed p = length (results s)"
        by (simp add: crawl_inv_def)
      from Some have "map_option pagesProcessed (progressTracker ?s') = Some (pagesProcessed p + 1)"
        by (simp add: process_page_pagesProcessed)
      with pp show ?thesis
        by (cases "progressTracker ?s'") (simp_all add: process_page_results)
    qed
    from inv False new have
      "\<forall>r \<in> set (results ?s'). of_nat (pr_depth r) \<le> cfg_maxDepth cfg"
      "distinct (map pr_url (results ?s'))"
      "set (map pr_url (results ?s')) = crawled ?s'"
      "map row_url (pages ?s') = map pr_url (results ?s')"
      "scraped ?s' = map pr_url (results ?s')"
      by (auto simp: crawl_inv_def process_page_results process_page_crawled
          process_page_page_urls process_page_scraped)
    with len q tr show ?thesis
      unfolding body crawl_inv_def by blast
  qed
qed

lemma crawl_inv_iter: "crawl_inv cfg s \<Longrightarrow> crawl_inv cfg (crawl_iter env cfg s)"
  by (simp add: crawl_iter_def crawl_inv_body)

lemma crawl_inv_funpow: "crawl_inv cfg s \<Longrightarrow> crawl_inv cfg ((crawl_iter env cfg ^^ n) s)"
  by (induction n) (simp_all add: crawl_inv_iter)

lemma crawl_loop_is_iterate:
  "\<exists>n. crawl_loop env cfg s = (crawl_iter env cfg ^^ n) s"
proof (induction env cfg s rule: crawl_loop.induct)
  case (1 env cfg s)
  show ?case
  proof (cases "loop_guard cfg s")
    case True
    from "1" [OF True] obtain n
      where "crawl_loop env cfg (crawl_body env cfg s) = (crawl_iter env cfg ^^ n) (crawl_body env cfg s)"
      by blast
    with True have "crawl_loop env cfg s = (crawl_iter env cfg ^^ Suc n) s"
      by (simp add: crawl_loop.simps [of env cfg s] crawl_iter_def funpow_swap1)
    then show ?thesis by blast
  next
    case False
    then have "crawl_loop env cfg s = (crawl_iter env cfg ^^ 0) s"
      by (simp add: crawl_loop.simps [of env cfg s])
    then show ?thesis by blast
  qed
qed

lemma crawl_loop_exits: "\<not> loop_guard cfg (crawl_loop env cfg s)"
proof (induction env cfg s rule: crawl_loop.induct)
  case (1 env cfg s)
  then show ?case
    by (cases "loop_guard cfg s") (simp_all add: crawl_loop.simps [of env cfg s])
qed

lemma crawl_inv_loop: "crawl_inv cfg s \<Longrightarrow> crawl_inv cfg (crawl_loop env cfg s)"
  using crawl_loop_is_iterate [of env cfg s] by (auto simp: crawl_inv_funpow)

lemma crawl_finish_fields [simp]:
  "results (crawl_finish env cfg s) = results s"
  "toCrawl (crawl_finish env cfg s) = toCrawl s"
  "crawled (crawl_finish env cfg s) = crawled s"
  "pages (crawl_finish env cfg s) = pages s"
  "scraped (crawl_finish env cfg s) = scraped s"
  "map_option pagesProcessed (progressTracker (crawl_finish env cfg s))
     = map_option pagesProcessed (progressTracker s)"
  by (cases "progressTracker s"; simp add: crawl_finish_def Let_def)+

lemma crawl_inv_finish: "crawl_inv cfg s \<Longrightarrow> crawl_inv cfg (crawl_finish env cfg s)"
  by (cases "progressTracker s") (auto simp: crawl_inv_def crawl_finish_def Let_def)

lemma crawl_inv_crawlMultiPage:
  "crawl_inv (crawl_defaults jid url options) (crawlMultiPage env jid url options t0 tbl)"
  by (simp add: crawlMultiPage_def Let_def crawl_inv_finish crawl_inv_loop crawl_inv_start)

subsection \<open>The traversal does not read the tracker\<close>

text \<open>The state with its tracker taken away. Every step of the engine commutes with
  taking the tracker away, so what a run does to the queue, the results, the
  \<^verbatim>\<open>pages\<close> rows, the scrape calls and the \<^verbatim>\<open>jobs\<close> table can be computed on
  states without a tracker.\<close>

definition untracked :: "crawl_state \<Rightarrow> crawl_state" where
  "untracked s = s\<lparr> progressTracker := None \<rparr>"

lemma untracked_fields [simp]:
  "crawled (untracked s) = crawled s"
  "toCrawl (untracked s) = toCrawl s"
  "results (untracked s) = results s"
  "failedUrls (untracked s) = failedUrls s"
  "pages (untracked s) = pages s"
  "scraped (untracked s) = scraped s"
  "jobs (untracked s) = jobs s"
  "activeTracker (untracked s) = activeTracker s"
  "progressTracker (untracked s) = None"
  by (simp_all add: untracked_def)

lemma untracked_track [simp]: "untracked (track f s) = untracked s"
  by (simp add: untracked_def track_def)

lemma untracked_process_page:
  "untracked (process_page env cfg e s) = process_page env cfg e (untracked s)"
  by (simp add: process_page_def Let_def untracked_def track_def split: sum.splits prod.splits)

lemma untracked_body: "untracked (crawl_body env cfg s) = crawl_body env cfg (untracked s)"
proof (cases "toCrawl s")
  case Nil
  then show ?thesis by (simp add: crawl_body_def)
next
  case (Cons e rest)
  have "untracked (s\<lparr>toCrawl := rest\<rparr>) = (untracked s)\<lparr>toCrawl := rest\<rparr>"
    by (simp add: untracked_def)
  with Cons show ?thesis
    by (simp add: crawl_body_def Let_def untracked_process_page)
qed

lemma untracked_guard [simp]: "loop_guard cfg (untracked s) = loop_guard cfg s"
  by (simp add: loop_guard_def)

lemma untracked_iter: "untracked (crawl_iter env cfg s) = crawl_iter env cfg (untracked s)"
  by (simp add: crawl_iter_def untracked_body)

lemma untracked_funpow:
  "untracked ((crawl_iter env cfg ^^ n) s) = (crawl_iter env cfg ^^ n) (untracked s)"
  by (induction n) (simp_all add: untracked_iter)

lemma untracked_loop: "untracked (crawl_loop env cfg s) = crawl_loop env cfg (untracked s)"
proof (induction env cfg s rule: crawl_loop.induct)
  case (1 env cfg s)
  show ?case
  proof (cases "loop_guard cfg s")
    case True
    with "1" show ?thesis
      by (simp add: crawl_loop.simps [of env cfg s]
          crawl_loop.simps [of env cfg "untracked s"] untracked_body)
  next
    case False
    then show ?thesis
      by (simp add: crawl_loop.simps [of env cfg s] crawl_loop.simps [of env cfg "untracked s"])
  qed
qed

lemma untracked_finish:
  "untracked (crawl_finish env cfg s) = crawl_finish env cfg (untracked s)"
  by (simp add: crawl_finish_def Let_def untracked_def track_def)

lemma untracked_crawlMultiPage:
  "untracked (crawlMultiPage env jid url options t0 tbl) =
     crawl_finish env (crawl_defaults jid url options)
       (crawl_loop env (crawl_defaults jid url options)
          (untracked (crawl_start (crawl_defaults jid url options) t0 tbl)))"
  by (simp add: crawlMultiPage_def Let_def untracked_finish untracked_loop)

text \<open>Reading a part of the state that the tracker is not part of.\<close>

lemma via_untracked:
  "results s = results (untracked s)"
  "toCrawl s = toCrawl (untracked s)"
  "crawled s = crawled (untracked s)"
  "pages s = pages (untracked s)"
  "scraped s = scraped (untracked s)"
  "jobs s = jobs (untracked s)"
  "loop_guard cfg s = loop_guard cfg (untracked s)"
  by simp_all

lemmas untracked_run =
  untracked_crawlMultiPage untracked_funpow untracked_loop untracked_finish untracked_body
  untracked_process_page

definition has_tracker :: "crawl_state \<Rightarrow> bool" where
  "has_tracker s \<longleftrightarrow> progressTracker s \<noteq> None"

lemma untracked_cancelCrawlJob:
  "activeTracker s \<Longrightarrow> has_tracker s \<Longrightarrow>
     untracked (fst (cancelCrawlJob cfg now s)) =
       (untracked s)\<lparr> activeTracker := False,
          jobs := updateJobStatus (cfg_jobId cfg) cancelled (Some ''Cancelled by user'')
                    (jobs (untracked s)) \<rparr>"
  by (simp add: cancelCrawlJob_def has_tracker_def Let_def untracked_def track_def)

text \<open>A tracker, once there, stays.\<close>

lemma tracked_body: "has_tracker s \<Longrightarrow> has_tracker (crawl_body env cfg s)"
  by (cases "toCrawl s")
     (auto simp: has_tracker_def crawl_body_def process_page_def Let_def
           split: sum.splits prod.splits)

lemma tracked_funpow: "has_tracker s \<Longrightarrow> has_tracker ((crawl_iter env cfg ^^ n) s)"
  by (induction n) (simp_all add: crawl_iter_def tracked_body)

lemma tracked_loop: "has_tracker s \<Longrightarrow> has_tracker (crawl_loop env cfg s)"
proof -
  assume t: "has_tracker s"
  obtain n where "crawl_loop env cfg s = (crawl_iter env cfg ^^ n) s"
    using crawl_loop_is_iterate by blast
  with tracked_funpow [OF t] show ?thesis
    by simp
qed

lemma active_body: "activeTracker (crawl_body env cfg s) = activeTracker s"
  by (cases "toCrawl s")
     (simp_all add: crawl_body_def process_page_def Let_def split: sum.splits prod.splits)

lemma active_funpow: "activeTracker ((crawl_iter env cfg ^^ n) s) = activeTracker s"
  by (induction n) (simp_all add: crawl_iter_def active_body)

lemma tracked_finish: "has_tracker s \<Longrightarrow> has_tracker (crawl_finish env cfg s)"
  by (auto simp: has_tracker_def crawl_finish_def Let_def)

lemma tracked_crawlMultiPage:
  assumes "co_enableProgressTracking options \<noteq> Some False"
  shows "has_tracker (crawlMultiPage env jid url options t0 tbl)"
proof -
  let ?cfg = "crawl_defaults jid url options"
  from assms have "has_tracker (crawl_start ?cfg t0 tbl)"
    by (simp add: has_tracker_def crawl_start_def crawl_defaults_def)
  then have "has_tracker (crawl_finish env ?cfg (crawl_loop env ?cfg (crawl_start ?cfg t0 tbl)))"
    by (intro tracked_finish tracked_loop)
  then show ?thesis
    by (simp add: crawlMultiPage_def Let_def)
qed

lemma crawlMultiPage_pagesProcessed:
  assumes "co_enableProgressTracking options \<noteq> Some False"
  shows "map_option pagesProcessed (progressTracker (crawlMultiPage env jid url options t0 tbl))
           = Some (length (results (crawlMultiPage env jid url options t0 tbl)))"
proof -
  let ?final = "crawlMultiPage env jid url options t0 tbl"
  from tracked_crawlMultiPage [OF assms, of env jid url t0 tbl]
  obtain p where p: "progressTracker ?final = Some p"
    by (auto simp: has_tracker_def)
  have "crawl_inv (crawl_defaults jid url options) ?final"
    by (rule crawl_inv_crawlMultiPage)
  with p show ?thesis
    by (simp add: crawl_inv_def)
qed

subsection \<open>Page budget\<close>

lemma below_succ_ceiling:
  fixes m :: rat
  assumes "of_nat n < max 0 m + 1"
  shows "int n \<le> max 0 \<lceil>m\<rceil>"
proof (cases "m \<le> 0")
  case True
  then have "max 0 m = 0"
    by (rule max_absorb1)
  with assms have "(of_nat n :: rat) < of_nat 1"
    by simp
  then have "n < 1"
    by (simp only: of_nat_less_iff)
  then show ?thesis
    by simp
next
  case False
  with assms have "of_int (int n - 1) < m"
    by (simp add: max_def)
  also have "m \<le> of_int \<lceil>m\<rceil>"
    by (rule le_of_int_ceiling)
  finally have "int n - 1 < \<lceil>m\<rceil>"
    by (simp only: of_int_less_iff)
  then show ?thesis
    by simp
qed

lemma below_succ_whole:
  assumes "(of_nat n :: rat) < max 0 (of_nat N) + 1"
  shows "n \<le> N"
proof -
  from assms have "(of_nat n :: rat) < of_nat (N + 1)"
    by (simp add: max_def)
  then have "n < N + 1"
    by (simp only: of_nat_less_iff)
  then show ?thesis
    by simp
qed

text \<open>
  C3 as stated fails. The loop begins a pass while \<^verbatim>\<open>results.length < maxPages\<close>, and
  \<^verbatim>\<open>maxPages\<close> need not be whole. With a budget of two and a half pages a third page is
  begun when two are recorded: on the small site the crawl records \<open>A\<close>, \<open>B\<close> and \<open>C\<close>,
  three pages for a budget of 2.5, and the tracker's \<^verbatim>\<open>pagesProcessed\<close> is 3.
\<close>

theorem page_budget_counterexample:
  "cfg_maxPages (crawl_defaults ''job-1'' ''http://a.test/A'' fractional_budget) = 5 / 2
   \<and> map pr_url (results
         (crawlMultiPage site_env ''job-1'' ''http://a.test/A'' fractional_budget 0 site_jobs))
       = [''http://a.test/A'', ''http://a.test/B'', ''http://a.test/C'']
   \<and> map_option pagesProcessed (progressTracker
         (crawlMultiPage site_env ''job-1'' ''http://a.test/A'' fractional_budget 0 site_jobs))
       = Some 3
   \<and> cfg_maxPages (crawl_defaults ''job-1'' ''http://a.test/A'' fractional_budget)
       < of_nat (length (results
           (crawlMultiPage site_env ''job-1'' ''http://a.test/A'' fractional_budget 0 site_jobs)))"
proof -
  let ?final = "crawlMultiPage site_env ''job-1'' ''http://a.test/A'' fractional_budget 0 site_jobs"
  have a: "cfg_maxPages (crawl_defaults ''job-1'' ''http://a.test/A'' fractional_budget) = 5 / 2"
    by (simp add: crawl_defaults_def fractional_budget_def crawl_options_def or_default_def)
  have b: "map pr_url (results ?final)
       = [''http://a.test/A'', ''http://a.test/B'', ''http://a.test/C'']"
    by (subst via_untracked(1), unfold untracked_run, code_simp)
  have "length (map pr_url (results ?final)) = 3"
    unfolding b by simp
  then have l: "length (results ?final) = 3"
    by simp
  have "co_enableProgressTracking fractional_budget \<noteq> Some False"
    by (simp add: fractional_budget_def crawl_options_def)
  from crawlMultiPage_pagesProcessed [OF this, of site_env "''job-1''" "''http://a.test/A''" 0 site_jobs]
  have c: "map_option pagesProcessed (progressTracker ?final) = Some 3"
    by (simp only: l)
  from a b c l show ?thesis
    by simp
qed

text \<open>
  C3, amended. For a crawl job with page budget \<^verbatim>\<open>maxPages\<close> (after defaults), in every
  state the traversal goes through (after any number \<open>n\<close> of passes of the loop) the number
  of recorded results is at most \<^verbatim>\<open>maxPages\<close> rounded up to a whole number (and 0 for a
  negative budget); so it is at most \<^verbatim>\<open>maxPages\<close> when \<^verbatim>\<open>maxPages\<close> is a whole number
  \<open>N\<close>. The tracker's \<^verbatim>\<open>pagesProcessed\<close>, when there is a tracker, is that number of
  results. The loop terminates with its condition false, so it stops as soon as the
  results are no fewer than \<^verbatim>\<open>maxPages\<close>, and the result of \<^verbatim>\<open>crawlMultiPage\<close> keeps
  the bounds. Whatever is left in the queue then was never scraped, never recorded and
  never written to the \<^verbatim>\<open>pages\<close> table.
\<close>

theorem crawl_page_budget:
  fixes env :: crawl_env and jid url :: string and options :: CrawlOptions
    and n :: nat and t0 :: int and tbl :: "string \<rightharpoonup> job_row" and N :: nat
  defines "cfg \<equiv> crawl_defaults jid url options"
  defines "s \<equiv> (crawl_iter env cfg ^^ n) (crawl_start cfg t0 tbl)"
  defines "final \<equiv> crawlMultiPage env jid url options t0 tbl"
  shows "int (length (results s)) \<le> max 0 \<lceil>cfg_maxPages cfg\<rceil>
    \<and> (cfg_maxPages cfg = of_nat N \<longrightarrow> length (results s) \<le> N)
    \<and> map_option pagesProcessed (progressTracker s)
        = map_option (\<lambda>_. length (results s)) (progressTracker s)
    \<and> \<not> loop_guard cfg (crawl_loop env cfg (crawl_start cfg t0 tbl))
    \<and> int (length (results final)) \<le> max 0 \<lceil>cfg_maxPages cfg\<rceil>
    \<and> (cfg_maxPages cfg = of_nat N \<longrightarrow> length (results final) \<le> N)
    \<and> map_option pagesProcessed (progressTracker final)
        = map_option (\<lambda>_. length (results final)) (progressTracker final)
    \<and> (\<forall>e \<in> set (toCrawl final).
          fe_url e \<notin> set (map pr_url (results final))
          \<and> fe_url e \<notin> set (map row_url (pages final))
          \<and> fe_url e \<notin> set (scraped final))"
proof -
  have "crawl_inv cfg s"
    unfolding s_def by (rule crawl_inv_funpow [OF crawl_inv_start])
  then have a0: "of_nat (length (results s)) < max 0 (cfg_maxPages cfg) + 1"
    and b: "map_option pagesProcessed (progressTracker s)
              = map_option (\<lambda>_. length (results s)) (progressTracker s)"
    by (simp_all add: crawl_inv_def)
  have a1: "int (length (results s)) \<le> max 0 \<lceil>cfg_maxPages cfg\<rceil>"
    by (rule below_succ_ceiling [OF a0])
  have a2: "cfg_maxPages cfg = of_nat N \<longrightarrow> length (results s) \<le> N"
    using a0 below_succ_whole [of "length (results s)" N] by auto
  have f: "crawl_inv cfg final"
    unfolding final_def cfg_def by (rule crawl_inv_crawlMultiPage)
  then have c0: "of_nat (length (results final)) < max 0 (cfg_maxPages cfg) + 1"
    and d: "map_option pagesProcessed (progressTracker final)
              = map_option (\<lambda>_. length (results final)) (progressTracker final)"
    by (simp_all add: crawl_inv_def)
  have c1: "int (length (results final)) \<le> max 0 \<lceil>cfg_maxPages cfg\<rceil>"
    by (rule below_succ_ceiling [OF c0])
  have c2: "cfg_maxPages cfg = of_nat N \<longrightarrow> length (results final) \<le> N"
    using c0 below_succ_whole [of "length (results final)" N] by auto
  from f have "fe_url ` set (toCrawl final) \<inter> set (map pr_url (results final)) = {}"
    and "map row_url (pages final) = map pr_url (results final)"
    and "scraped final = map pr_url (results final)"
    by (simp_all add: crawl_inv_def frontier_ok_def)
  then have e: "\<forall>e \<in> set (toCrawl final).
          fe_url e \<notin> set (map pr_url (results final))
          \<and> fe_url e \<notin> set (map row_url (pages final))
          \<and> fe_url e \<notin> set (scraped final)"
    by auto
  from a1 a2 b c1 c2 d e crawl_loop_exits [of cfg env "crawl_start cfg t0 tbl"] show ?thesis
    by blast
qed

theorem crawl_page_budget_witness:
  "cfg_maxPages (crawl_defaults ''job-1'' ''http://a.test/A'' (crawl_options 1 2)) = of_nat 2
   \<and> length (results (crawlMultiPage site_env ''job-1'' ''http://a.test/A'' (crawl_options 1 2) 0 site_jobs)) \<le> 2
   \<and> \<lparr> fe_url = ''http://a.test/C'', fe_depth = 1 \<rparr>
      \<in> set (toCrawl (crawlMultiPage site_env ''job-1'' ''http://a.test/A'' (crawl_options 1 2) 0 site_jobs))
   \<and> map pr_url (results (crawlMultiPage site_env ''job-1'' ''http://a.test/A'' (crawl_options 1 2) 0 site_jobs))
       = [''http://a.test/A'', ''http://a.test/B'']
   \<and> ''http://a.test/C'' \<notin> set (map pr_url
        (results (crawlMultiPage site_env ''job-1'' ''http://a.test/A'' (crawl_options 1 2) 0 site_jobs)))
   \<and> ''http://a.test/C'' \<notin> set (map row_url
        (pages (crawlMultiPage site_env ''job-1'' ''http://a.test/A'' (crawl_options 1 2) 0 site_jobs)))
   \<and> ''http://a.test/C'' \<notin> set
        (scraped (crawlMultiPage site_env ''job-1'' ''http://a.test/A'' (crawl_options 1 2) 0 site_jobs))"
proof -
  let ?final = "crawlMultiPage site_env ''job-1'' ''http://a.test/A'' (crawl_options 1 2) 0 site_jobs"
  note t = crawl_page_budget [where env = site_env and jid = "''job-1''" and url = "''http://a.test/A''"
      and options = "crawl_options 1 2" and n = 0 and ?t0.0 = 0 and tbl = site_jobs and N = 2]
  have w: "cfg_maxPages (crawl_defaults ''job-1'' ''http://a.test/A'' (crawl_options 1 2)) = of_nat 2"
    by (simp add: crawl_defaults_def crawl_options_def or_default_def)
  have m: "\<lparr> fe_url = ''http://a.test/C'', fe_depth = 1 \<rparr> \<in> set (toCrawl ?final)"
    by (subst via_untracked(2), unfold untracked_run, code_simp)
  have l: "map pr_url (results ?final) = [''http://a.test/A'', ''http://a.test/B'']"
    by (subst via_untracked(1), unfold untracked_run, code_simp)
  from t w have b: "length (results ?final) \<le> 2"
    by blast
  from t have "\<forall>e \<in> set (toCrawl ?final).
          fe_url e \<notin> set (map pr_url (results ?final))
          \<and> fe_url e \<notin> set (map row_url (pages ?final))
          \<and> fe_url e \<notin> set (scraped ?final)"
    by blast
  from bspec [OF this m] w b m l show ?thesis
    by simp
qed

subsection \<open>Depth bound\<close>

lemma enqueue_new_depth:
  "set (fst (enqueue cr d links (q, new))) \<subseteq> set q \<union> {x. fe_depth x = d}"
proof (induction links arbitrary: q new)
  case Nil
  then show ?case by simp
next
  case (Cons link links)
  have "set (fst (enqueue cr d links (q @ [\<lparr> fe_url = link, fe_depth = d \<rparr>], new @ [link])))
          \<subseteq> set (q @ [\<lparr> fe_url = link, fe_depth = d \<rparr>]) \<union> {x. fe_depth x = d}"
    by (rule Cons.IH)
  moreover have "set (fst (enqueue cr d links (q, new))) \<subseteq> set q \<union> {x. fe_depth x = d}"
    by (rule Cons.IH)
  ultimately show ?case
    by auto
qed

lemma process_page_new_entries:
  assumes "x \<in> set (toCrawl (process_page env cfg e s))" and "x \<notin> set (toCrawl s)"
  shows "fe_depth x = fe_depth e + 1 \<and> of_nat (fe_depth e) < cfg_maxDepth cfg"
proof (cases "scrape env (length (results s)) (fe_url e)")
  case (Inl msg)
  with assms show ?thesis
    by (simp add: process_page_toCrawl)
next
  case (Inr r)
  show ?thesis
  proof (cases "of_nat (fe_depth e) < cfg_maxDepth cfg")
    case True
    with Inr assms(1)
    have "x \<in> set (fst (enqueue (insert (fe_url e) (crawled s)) (fe_depth e + 1) (snd r) (toCrawl s, [])))"
      by (simp add: process_page_toCrawl)
    with enqueue_new_depth assms(2) have "fe_depth x = fe_depth e + 1"
      by fastforce
    with True show ?thesis by simp
  next
    case False
    with Inr assms show ?thesis
      by (simp add: process_page_toCrawl)
  qed
qed

text \<open>
  C4 as stated fails in its last part. Links are queued when
  \<^verbatim>\<open>depth < maxDepth\<close>, and \<^verbatim>\<open>maxDepth\<close> need not be whole. With a depth limit of one
  and a half, after two passes on the small site the queue holds \<open>C\<close> and \<open>D\<close> at depth 1;
  the pass that processes \<open>C\<close> queues its link \<open>E\<close> at depth 2, though 2 is more than 1.5.
  (\<open>E\<close> is skipped when it is taken from the queue: the crawl records \<open>A\<close>, \<open>B\<close>, \<open>C\<close> and
  \<open>D\<close> only.)
\<close>

theorem depth_enqueue_counterexample:
  "cfg_maxDepth (crawl_defaults ''job-1'' ''http://a.test/A'' fractional_depth) = 3 / 2
   \<and> toCrawl ((crawl_iter site_env (crawl_defaults ''job-1'' ''http://a.test/A'' fractional_depth) ^^ 2)
        (crawl_start (crawl_defaults ''job-1'' ''http://a.test/A'' fractional_depth) 0 site_jobs))
       = [\<lparr> fe_url = ''http://a.test/C'', fe_depth = 1 \<rparr>,
          \<lparr> fe_url = ''http://a.test/D'', fe_depth = 1 \<rparr>]
   \<and> toCrawl ((crawl_iter site_env (crawl_defaults ''job-1'' ''http://a.test/A'' fractional_depth) ^^ 3)
        (crawl_start (crawl_defaults ''job-1'' ''http://a.test/A'' fractional_depth) 0 site_jobs))
       = [\<lparr> fe_url = ''http://a.test/D'', fe_depth = 1 \<rparr>,
          \<lparr> fe_url = ''http://a.test/E'', fe_depth = 1 + 1 \<rparr>]
   \<and> \<not> of_nat (1 + 1) \<le> cfg_maxDepth (crawl_defaults ''job-1'' ''http://a.test/A'' fractional_depth)
   \<and> map pr_url (results
         (crawlMultiPage site_env ''job-1'' ''http://a.test/A'' fractional_depth 0 site_jobs))
       = [''http://a.test/A'', ''http://a.test/B'', ''http://a.test/C'', ''http://a.test/D'']"
proof -
  let ?cfg = "crawl_defaults ''job-1'' ''http://a.test/A'' fractional_depth"
  have a: "cfg_maxDepth ?cfg = 3 / 2"
    by (simp add: crawl_defaults_def fractional_depth_def crawl_options_def or_default_def)
  have b: "toCrawl ((crawl_iter site_env ?cfg ^^ 2) (crawl_start ?cfg 0 site_jobs))
       = [\<lparr> fe_url = ''http://a.test/C'', fe_depth = 1 \<rparr>,
          \<lparr> fe_url = ''http://a.test/D'', fe_depth = 1 \<rparr>]"
    by (subst via_untracked(2), unfold untracked_run, code_simp)
  have c: "toCrawl ((crawl_iter site_env ?cfg ^^ 3) (crawl_start ?cfg 0 site_jobs))
       = [\<lparr> fe_url = ''http://a.test/D'', fe_depth = 1 \<rparr>,
          \<lparr> fe_url = ''http://a.test/E'', fe_depth = 1 + 1 \<rparr>]"
    by (subst via_untracked(2), unfold untracked_run, code_simp)
  have d: "\<not> of_nat (1 + 1) \<le> cfg_maxDepth ?cfg"
    unfolding a by simp
  have e: "map pr_url (results
         (crawlMultiPage site_env ''job-1'' ''http://a.test/A'' fractional_depth 0 site_jobs))
       = [''http://a.test/A'', ''http://a.test/B'', ''http://a.test/C'', ''http://a.test/D'']"
    by (subst via_untracked(1), unfold untracked_run, code_simp)
  from a b c d e show ?thesis
    by blast
qed

text \<open>
  C4, amended. In every state the traversal goes through, every recorded page has depth
  at most \<^verbatim>\<open>maxDepth\<close>, and so has every page in the result of \<^verbatim>\<open>crawlMultiPage\<close>. A
  pass of the loop that takes an entry deeper than \<^verbatim>\<open>maxDepth\<close> from the queue only
  removes it. An entry that processing a page at depth \<open>d\<close> adds to the queue has depth
  \<open>d + 1\<close>, and is added only when \<open>d < maxDepth\<close>; every queued entry has a depth below
  \<open>maxDepth + 1\<close> (the start entry has depth 0). When \<^verbatim>\<open>maxDepth\<close> is a whole number \<open>D\<close>,
  that is: an entry is added only when \<open>d + 1 \<le> D\<close>, and every queued entry has depth at
  most \<open>D\<close>.
\<close>

theorem crawl_depth_bound:
  fixes env :: crawl_env and jid url :: string and options :: CrawlOptions
    and n :: nat and t0 :: int and tbl :: "string \<rightharpoonup> job_row"
    and st :: crawl_state and e :: FrontierEntry and rest :: "FrontierEntry list" and D :: nat
  defines "cfg \<equiv> crawl_defaults jid url options"
  defines "s \<equiv> (crawl_iter env cfg ^^ n) (crawl_start cfg t0 tbl)"
  defines "final \<equiv> crawlMultiPage env jid url options t0 tbl"
  shows "(\<forall>r \<in> set (results s). of_nat (pr_depth r) \<le> cfg_maxDepth cfg)
    \<and> (\<forall>r \<in> set (results final). of_nat (pr_depth r) \<le> cfg_maxDepth cfg)
    \<and> (cfg_maxDepth cfg < of_nat (fe_depth e) \<longrightarrow>
          crawl_body env cfg (st\<lparr> toCrawl := e # rest \<rparr>) = st\<lparr> toCrawl := rest \<rparr>)
    \<and> (\<forall>x \<in> set (toCrawl (process_page env cfg e st)) - set (toCrawl st).
          fe_depth x = fe_depth e + 1 \<and> of_nat (fe_depth e) < cfg_maxDepth cfg)
    \<and> (\<forall>x \<in> set (toCrawl s). of_nat (fe_depth x) < max 0 (cfg_maxDepth cfg) + 1)
    \<and> (cfg_maxDepth cfg = of_nat D \<longrightarrow>
          (\<forall>x \<in> set (toCrawl (process_page env cfg e st)) - set (toCrawl st).
              fe_depth e + 1 \<le> D)
          \<and> (\<forall>x \<in> set (toCrawl s). fe_depth x \<le> D))"
proof -
  have "crawl_inv cfg s"
    unfolding s_def by (rule crawl_inv_funpow [OF crawl_inv_start])
  then have a: "\<forall>r \<in> set (results s). of_nat (pr_depth r) \<le> cfg_maxDepth cfg"
    and b: "\<forall>x \<in> set (toCrawl s). of_nat (fe_depth x) < max 0 (cfg_maxDepth cfg) + 1"
    by (simp_all add: crawl_inv_def frontier_ok_def)
  have "crawl_inv cfg final"
    unfolding final_def cfg_def by (rule crawl_inv_crawlMultiPage)
  then have c: "\<forall>r \<in> set (results final). of_nat (pr_depth r) \<le> cfg_maxDepth cfg"
    by (simp add: crawl_inv_def)
  have d: "cfg_maxDepth cfg < of_nat (fe_depth e) \<longrightarrow>
          crawl_body env cfg (st\<lparr> toCrawl := e # rest \<rparr>) = st\<lparr> toCrawl := rest \<rparr>"
    by (simp add: crawl_body_def)
  have f: "\<forall>x \<in> set (toCrawl (process_page env cfg e st)) - set (toCrawl st).
          fe_depth x = fe_depth e + 1 \<and> of_nat (fe_depth e) < cfg_maxDepth cfg"
    using process_page_new_entries [of _ env cfg e st] by blast
  have g: "cfg_maxDepth cfg = of_nat D \<longrightarrow>
          (\<forall>x \<in> set (toCrawl (process_page env cfg e st)) - set (toCrawl st).
              fe_depth e + 1 \<le> D)
          \<and> (\<forall>x \<in> set (toCrawl s). fe_depth x \<le> D)"
  proof
    assume w: "cfg_maxDepth cfg = of_nat D"
    have "\<forall>x \<in> set (toCrawl (process_page env cfg e st)) - set (toCrawl st). fe_depth e + 1 \<le> D"
    proof
      fix x
      assume "x \<in> set (toCrawl (process_page env cfg e st)) - set (toCrawl st)"
      with f have "(of_nat (fe_depth e) :: rat) < of_nat D"
        unfolding w by blast
      then have "fe_depth e < D"
        by (simp only: of_nat_less_iff)
      then show "fe_depth e + 1 \<le> D"
        by simp
    qed
    moreover have "\<forall>x \<in> set (toCrawl s). fe_depth x \<le> D"
      using b below_succ_whole unfolding w by blast
    ultimately show "(\<forall>x \<in> set (toCrawl (process_page env cfg e st)) - set (toCrawl st).
              fe_depth e + 1 \<le> D)
          \<and> (\<forall>x \<in> set (toCrawl s). fe_depth x \<le> D)"
      by blast
  qed
  from a b c d f g show ?thesis
    by blast
qed

theorem crawl_depth_bound_witness:
  fixes cfg :: crawl_config and s0 :: crawl_state and rB :: PageResult
    and xA xB xE :: FrontierEntry
  defines "cfg \<equiv> crawl_defaults ''job-1'' ''http://a.test/A'' (crawl_options 1 5)"
  defines "s0 \<equiv> crawl_start cfg 0 site_jobs"
  defines "rB \<equiv> \<lparr> pr_url = ''http://a.test/B'', pr_depth = 1, pr_pageNumber = 2,
                     pr_success = False, pr_error = Some ''Navigation timeout'',
                     pr_linksFound = 0 \<rparr>"
  defines "xA \<equiv> \<lparr> fe_url = ''http://a.test/A'', fe_depth = 0 \<rparr>"
  defines "xB \<equiv> \<lparr> fe_url = ''http://a.test/B'', fe_depth = 1 \<rparr>"
  defines "xE \<equiv> \<lparr> fe_url = ''http://a.test/E'', fe_depth = 2 \<rparr>"
  shows "rB \<in> set (results ((crawl_iter site_env cfg ^^ 2) s0))
    \<and> xB \<in> set (toCrawl ((crawl_iter site_env cfg ^^ 1) s0))
    \<and> rB \<in> set (results (crawlMultiPage site_env ''job-1'' ''http://a.test/A'' (crawl_options 1 5) 0 site_jobs))
    \<and> cfg_maxDepth cfg = of_nat 1
    \<and> of_nat (pr_depth rB) \<le> cfg_maxDepth cfg
    \<and> fe_depth xB \<le> 1
    \<and> cfg_maxDepth cfg < of_nat (fe_depth xE)
    \<and> crawl_body site_env cfg (s0\<lparr> toCrawl := xE # [] \<rparr>) = s0\<lparr> toCrawl := [] \<rparr>
    \<and> xB \<in> set (toCrawl (process_page site_env cfg xA (s0\<lparr> toCrawl := [] \<rparr>)))
             - set (toCrawl (s0\<lparr> toCrawl := [] \<rparr>))
    \<and> fe_depth xB = fe_depth xA + 1
    \<and> fe_depth xA + 1 \<le> 1"
proof -
  note t = crawl_depth_bound [where env = site_env and jid = "''job-1''" and url = "''http://a.test/A''"
      and options = "crawl_options 1 5" and ?t0.0 = 0 and tbl = site_jobs and D = 1, folded cfg_def]
  have w: "cfg_maxDepth cfg = of_nat 1"
    unfolding cfg_def by (simp add: crawl_defaults_def crawl_options_def or_default_def)
  have m1: "rB \<in> set (results ((crawl_iter site_env cfg ^^ 2) s0))"
    unfolding cfg_def s0_def rB_def
    by (subst via_untracked(1), unfold untracked_run, code_simp)
  have m2: "xB \<in> set (toCrawl ((crawl_iter site_env cfg ^^ 1) s0))"
    unfolding cfg_def s0_def xB_def
    by (subst via_untracked(2), unfold untracked_run, code_simp)
  have m3: "rB \<in> set (results (crawlMultiPage site_env ''job-1'' ''http://a.test/A''
                (crawl_options 1 5) 0 site_jobs))"
    unfolding rB_def
    by (subst via_untracked(1), unfold untracked_run, code_simp)
  have m4: "cfg_maxDepth cfg < of_nat (fe_depth xE)"
    unfolding w xE_def by simp
  have "toCrawl (s0\<lparr> toCrawl := [] \<rparr>) = []"
    by simp
  moreover have "xB \<in> set (toCrawl (process_page site_env cfg xA (s0\<lparr> toCrawl := [] \<rparr>)))"
    unfolding cfg_def s0_def xA_def xB_def
    by (subst via_untracked(2), unfold untracked_run, code_simp)
  ultimately
  have m5: "xB \<in> set (toCrawl (process_page site_env cfg xA (s0\<lparr> toCrawl := [] \<rparr>)))
             - set (toCrawl (s0\<lparr> toCrawl := [] \<rparr>))"
    by simp
  from t [where n = 2] m1 have c1: "of_nat (pr_depth rB) \<le> cfg_maxDepth cfg"
    unfolding s0_def by blast
  from t [where n = 1] w m2 have c2: "fe_depth xB \<le> 1"
    unfolding s0_def by blast
  from t [where e = xE and st = s0 and rest = "[]"] m4
  have c4: "crawl_body site_env cfg (s0\<lparr> toCrawl := xE # [] \<rparr>) = s0\<lparr> toCrawl := [] \<rparr>"
    by blast
  from t [where e = xA and st = "s0\<lparr> toCrawl := [] \<rparr>"] m5 have c5: "fe_depth xB = fe_depth xA + 1"
    by blast
  from t [where e = xA and st = "s0\<lparr> toCrawl := [] \<rparr>"] w m5 have c6: "fe_depth xA + 1 \<le> 1"
    by blast
  from m1 m2 m3 w m4 m5 c1 c2 c4 c5 c6 show ?thesis
    by blast
qed

subsection \<open>No URL twice\<close>

lemma enqueue_new_urls:
  "x \<in> set (fst (enqueue cr d links (q, new))) \<Longrightarrow> x \<notin> set q \<Longrightarrow>
     fe_url x \<notin> cr \<and> fe_url x \<notin> fe_url ` set q"
proof (induction links arbitrary: q new)
  case Nil
  then show ?case by simp
next
  case (Cons link links)
  show ?case
  proof (cases "link \<notin> cr \<and> \<not> list_ex (\<lambda>item. fe_url item = link) q")
    case True
    let ?q' = "q @ [\<lparr> fe_url = link, fe_depth = d \<rparr>]"
    from True have fresh: "link \<notin> cr" "link \<notin> fe_url ` set q"
      by (auto simp: list_ex_iff)
    from Cons.prems(1) True have mem: "x \<in> set (fst (enqueue cr d links (?q', new @ [link])))"
      by simp
    show ?thesis
    proof (cases "x \<in> set ?q'")
      case True
      with Cons.prems(2) have "x = \<lparr> fe_url = link, fe_depth = d \<rparr>"
        by simp
      with fresh show ?thesis by simp
    next
      case False
      from Cons.IH [OF mem False] show ?thesis
        by auto
    qed
  next
    case False
    with Cons.prems have "x \<in> set (fst (enqueue cr d links (q, new)))"
      by auto
    from Cons.IH [OF this Cons.prems(2)] show ?thesis .
  qed
qed

text \<open>An entry that processing a page adds to the queue has a URL that is neither
  crawled nor in the queue; a pass of the loop that takes an entry with a crawled URL
  from the queue only removes it.\<close>

lemma process_page_new_urls:
  assumes "x \<in> set (toCrawl (process_page env cfg e s))" and "x \<notin> set (toCrawl s)"
  shows "fe_url x \<notin> insert (fe_url e) (crawled s) \<and> fe_url x \<notin> fe_url ` set (toCrawl s)"
proof (cases "scrape env (length (results s)) (fe_url e)")
  case (Inl msg)
  with assms show ?thesis
    by (simp add: process_page_toCrawl)
next
  case (Inr r)
  show ?thesis
  proof (cases "of_nat (fe_depth e) < cfg_maxDepth cfg")
    case True
    with Inr assms(1)
    have "x \<in> set (fst (enqueue (insert (fe_url e) (crawled s)) (fe_depth e + 1) (snd r) (toCrawl s, [])))"
      by (simp add: process_page_toCrawl)
    from enqueue_new_urls [OF this assms(2)] show ?thesis .
  next
    case False
    with Inr assms show ?thesis
      by (simp add: process_page_toCrawl)
  qed
qed

lemma crawled_entry_skipped:
  "fe_url e \<in> crawled st \<Longrightarrow>
     crawl_body env cfg (st\<lparr> toCrawl := e # rest \<rparr>) = st\<lparr> toCrawl := rest \<rparr>"
  by (simp add: crawl_body_def)

text \<open>
  C5. In every state the traversal goes through, the recorded results have pairwise
  different URLs, no URL was scraped twice, the queue holds no URL twice and holds no URL
  that is already crawled (so a discovered link is queued only when it is neither crawled
  nor queued). In the result of \<^verbatim>\<open>crawlMultiPage\<close> every URL has at most one Page
  Result, one row in the \<^verbatim>\<open>pages\<close> table and one scrape, however often it was
  discovered.
\<close>

theorem crawl_no_url_twice:
  fixes env :: crawl_env and jid url :: string and options :: CrawlOptions
    and n :: nat and t0 :: int and tbl :: "string \<rightharpoonup> job_row"
  defines "cfg \<equiv> crawl_defaults jid url options"
  defines "s \<equiv> (crawl_iter env cfg ^^ n) (crawl_start cfg t0 tbl)"
  defines "final \<equiv> crawlMultiPage env jid url options t0 tbl"
  shows "distinct (map pr_url (results s))
    \<and> distinct (scraped s)
    \<and> set (map pr_url (results s)) = crawled s
    \<and> distinct (map fe_url (toCrawl s))
    \<and> fe_url ` set (toCrawl s) \<inter> crawled s = {}
    \<and> distinct (map pr_url (results final))
    \<and> distinct (map row_url (pages final))
    \<and> distinct (scraped final)"
proof -
  have "crawl_inv cfg s"
    unfolding s_def by (rule crawl_inv_funpow [OF crawl_inv_start])
  moreover have "crawl_inv cfg final"
    unfolding final_def cfg_def by (rule crawl_inv_crawlMultiPage)
  ultimately show ?thesis
    by (simp add: crawl_inv_def frontier_ok_def)
qed

text \<open>Scenario 4 of the specification, on the small site: \<open>A\<close> links to \<open>B\<close> twice,
  \<open>B\<close> is queued once and processed once.\<close>

lemma duplicate_link_processed_once:
  "map fe_url (toCrawl ((crawl_iter site_env
       (crawl_defaults ''job-1'' ''http://a.test/A'' (crawl_options 1 5)) ^^ 1)
       (crawl_start (crawl_defaults ''job-1'' ''http://a.test/A'' (crawl_options 1 5)) 0 site_jobs)))
     = [''http://a.test/B'', ''http://a.test/C'', ''http://a.test/D'']
   \<and> map pr_url (results
       (crawlMultiPage site_env ''job-1'' ''http://a.test/A'' (crawl_options 1 5) 0 site_jobs))
     = [''http://a.test/A'', ''http://a.test/B'', ''http://a.test/C'', ''http://a.test/D'']"
proof -
  have "map fe_url (toCrawl ((crawl_iter site_env
       (crawl_defaults ''job-1'' ''http://a.test/A'' (crawl_options 1 5)) ^^ 1)
       (crawl_start (crawl_defaults ''job-1'' ''http://a.test/A'' (crawl_options 1 5)) 0 site_jobs)))
     = [''http://a.test/B'', ''http://a.test/C'', ''http://a.test/D'']"
    by (subst via_untracked(2), unfold untracked_run, code_simp)
  moreover have "map pr_url (results
       (crawlMultiPage site_env ''job-1'' ''http://a.test/A'' (crawl_options 1 5) 0 site_jobs))
     = [''http://a.test/A'', ''http://a.test/B'', ''http://a.test/C'', ''http://a.test/D'']"
    by (subst via_untracked(1), unfold untracked_run, code_simp)
  ultimately show ?thesis
    by blast
qed

subsection \<open>Page failures\<close>

lemma tracker_errors [simp]:
  "errors (startProcessingPage opts now url depth p) = errors p"
  "errors (pageFailed opts now url msg p) =
     errors p @ [\<lparr> err_url = url, err_error = msg, err_timestamp = now,
                    err_depth = currentDepth p \<rparr>]"
  "errors (updateQueueStatus opts now n p) = errors p"
  by (simp_all add: startProcessingPage_def pageFailed_def updateQueueStatus_def Let_def)

lemma startProcessingPage_currentDepth [simp]:
  "currentDepth (startProcessingPage opts now url depth p) = depth"
  by (simp add: startProcessingPage_def emitUpdate_def calculateProgress_def Let_def)

lemma process_page_failed_tracker:
  assumes "scrape env (length (results s)) (fe_url e) = Inl msg"
  shows "map_option errors (progressTracker (process_page env cfg e s)) =
     map_option (\<lambda>p. errors p @ [\<lparr> err_url = fe_url e, err_error = msg,
                        err_timestamp = clock env (length (results s)) 1,
                        err_depth = fe_depth e \<rparr>]) (progressTracker s)"
  using assms by (cases "progressTracker s") (simp_all add: process_page_def Let_def)

lemma process_page_failed_queue:
  assumes "scrape env (length (results s)) (fe_url e) = Inl msg"
  shows "failedUrls (process_page env cfg e s) = failedUrls s @ [fe_url e]"
  using assms by (simp add: process_page_def Let_def)

lemma crawl_body_jobs: "jobs (crawl_body env cfg s) = jobs s"
  by (cases "toCrawl s") (simp_all add: crawl_body_def Let_def process_page_jobs)

lemma crawl_loop_jobs: "jobs (crawl_loop env cfg s) = jobs s"
proof (induction env cfg s rule: crawl_loop.induct)
  case (1 env cfg s)
  then show ?case
    by (cases "loop_guard cfg s") (simp_all add: crawl_loop.simps [of env cfg s] crawl_body_jobs)
qed

lemma crawl_defaults_jobId [simp]: "cfg_jobId (crawl_defaults jid url options) = jid"
  by (simp add: crawl_defaults_def)

lemma crawlMultiPage_jobs:
  "jobs (crawlMultiPage env jid url options t0 tbl) =
     updateJobStatus jid completed None (updateJobStatus jid processing None tbl)"
  by (simp add: crawlMultiPage_def Let_def crawl_finish_def crawl_loop_jobs crawl_start_def)

text \<open>
  What a pass of the loop does when the page attempt throws. Let the pass take from the
  queue an entry that is processed (not yet crawled, not too deep) and whose attempt
  throws an error with message \<open>msg\<close>. The pass appends a Page Result with
  \<^verbatim>\<open>success = false\<close> and that error, and appends the error to the tracker's error list
  when there is a tracker. It sends a row to the \<^verbatim>\<open>pages\<close> table; for a message that is
  not empty the row has status code 0 and the message, for an empty message it has
  status code 200 and no message. The page was attempted once; its URL is now crawled, so
  it is not taken up again. The job's row is untouched and the rest of the queue is kept.
\<close>

lemma failed_page_pass:
  assumes "toCrawl s = e # rest"
    and "fe_url e \<notin> crawled s"
    and "of_nat (fe_depth e) \<le> cfg_maxDepth cfg"
    and "scrape env (length (results s)) (fe_url e) = Inl msg"
  shows "results (crawl_body env cfg s) = results s @
           [\<lparr> pr_url = fe_url e, pr_depth = fe_depth e, pr_pageNumber = length (results s) + 1,
              pr_success = False, pr_error = Some msg, pr_linksFound = 0 \<rparr>]"
    and "pages (crawl_body env cfg s) = pages s @
           [\<lparr> row_url = fe_url e, row_depth = fe_depth e,
              row_status_code = (if msg = [] then 200 else 0), row_links_found = 0,
              row_error_message = (if msg = [] then None else Some msg) \<rparr>]"
    and "map_option errors (progressTracker (crawl_body env cfg s)) =
         map_option (\<lambda>p. errors p @ [\<lparr> err_url = fe_url e, err_error = msg,
                        err_timestamp = clock env (length (results s)) 1,
                        err_depth = fe_depth e \<rparr>]) (progressTracker s)"
    and "failedUrls (crawl_body env cfg s) = failedUrls s @ [fe_url e]"
    and "scraped (crawl_body env cfg s) = scraped s @ [fe_url e]"
    and "crawled (crawl_body env cfg s) = insert (fe_url e) (crawled s)"
    and "toCrawl (crawl_body env cfg s) = rest"
    and "jobs (crawl_body env cfg s) = jobs s"
proof -
  let ?s1 = "s\<lparr> toCrawl := rest \<rparr>"
  have body: "crawl_body env cfg s = process_page env cfg e ?s1"
    using assms(1,2,3) by (simp add: crawl_body_def)
  have sc: "scrape env (length (results ?s1)) (fe_url e) = Inl msg"
    using assms(4) by simp
  show "results (crawl_body env cfg s) = results s @
           [\<lparr> pr_url = fe_url e, pr_depth = fe_depth e, pr_pageNumber = length (results s) + 1,
              pr_success = False, pr_error = Some msg, pr_linksFound = 0 \<rparr>]"
    unfolding body using sc by (simp add: process_page_results)
  show "pages (crawl_body env cfg s) = pages s @
           [\<lparr> row_url = fe_url e, row_depth = fe_depth e,
              row_status_code = (if msg = [] then 200 else 0), row_links_found = 0,
              row_error_message = (if msg = [] then None else Some msg) \<rparr>]"
    unfolding body using sc
    by (simp add: process_page_pages storePageResult_def truthy_def Let_def)
  show "map_option errors (progressTracker (crawl_body env cfg s)) =
         map_option (\<lambda>p. errors p @ [\<lparr> err_url = fe_url e, err_error = msg,
                        err_timestamp = clock env (length (results s)) 1,
                        err_depth = fe_depth e \<rparr>]) (progressTracker s)"
    unfolding body using process_page_failed_tracker [OF sc, of cfg] by simp
  show "failedUrls (crawl_body env cfg s) = failedUrls s @ [fe_url e]"
    unfolding body using process_page_failed_queue [OF sc, of cfg] by simp
  show "scraped (crawl_body env cfg s) = scraped s @ [fe_url e]"
    unfolding body by (simp add: process_page_scraped)
  show "crawled (crawl_body env cfg s) = insert (fe_url e) (crawled s)"
    unfolding body by (simp add: process_page_crawled)
  show "toCrawl (crawl_body env cfg s) = rest"
    unfolding body using sc by (simp add: process_page_toCrawl)
  show "jobs (crawl_body env cfg s) = jobs s"
    by (rule crawl_body_jobs)
qed

text \<open>The loop goes on after the failure: when the budget is not used up and the next
  entry of the queue is one to process, the next pass of the loop attempts it.\<close>

lemma failed_page_next:
  assumes "toCrawl s = e # e' # rest"
    and "fe_url e \<notin> crawled s"
    and "of_nat (fe_depth e) \<le> cfg_maxDepth cfg"
    and "scrape env (length (results s)) (fe_url e) = Inl msg"
    and "of_nat (length (results s) + 1) < cfg_maxPages cfg"
    and "fe_url e' \<notin> insert (fe_url e) (crawled s)"
    and "of_nat (fe_depth e') \<le> cfg_maxDepth cfg"
  shows "loop_guard cfg (crawl_body env cfg s)"
    and "scraped (crawl_iter env cfg (crawl_body env cfg s)) = scraped s @ [fe_url e, fe_url e']"
proof -
  note p = failed_page_pass [OF assms(1,2,3,4)]
  show g: "loop_guard cfg (crawl_body env cfg s)"
    using assms(5) by (simp add: loop_guard_def p(1,7))
  have "scraped (crawl_body env cfg (crawl_body env cfg s))
          = scraped (crawl_body env cfg s) @ [fe_url e']"
    using assms(6,7) by (simp add: crawl_body_def [of env cfg "crawl_body env cfg s"] p(6,7)
        process_page_scraped)
  with g show "scraped (crawl_iter env cfg (crawl_body env cfg s)) = scraped s @ [fe_url e, fe_url e']"
    by (simp add: crawl_iter_def p(5))
qed


section \<open>Cancellation and job status\<close>

lemma tracker_status [simp]:
  "status (markFailed opts now reason p) = Failed"
  "status (markCompleted opts now p) = Completed"
  by (simp_all add: markFailed_def markCompleted_def emitUpdate_def)

lemma cancel_succeeds:
  "activeTracker s \<Longrightarrow> has_tracker s \<Longrightarrow> snd (cancelCrawlJob ccfg now s) = True"
  by (simp add: cancelCrawlJob_def has_tracker_def Let_def)

lemma cancel_marks_failed:
  "activeTracker s \<Longrightarrow> has_tracker s \<Longrightarrow>
     map_option status (progressTracker (fst (cancelCrawlJob ccfg now s))) = Some Failed"
  by (cases "progressTracker s") (simp_all add: cancelCrawlJob_def has_tracker_def Let_def)

lemma cancel_keeps_tracker:
  "has_tracker s \<Longrightarrow> has_tracker (fst (cancelCrawlJob ccfg now s))"
  by (auto simp: cancelCrawlJob_def has_tracker_def Let_def)

lemma finish_marks_completed:
  "has_tracker s \<Longrightarrow>
     map_option status (progressTracker (crawl_finish env ccfg s)) = Some Completed"
  by (cases "progressTracker s") (simp_all add: crawl_finish_def has_tracker_def Let_def)

lemma site_run_tracked:
  "activeTracker ((crawl_iter site_env
      (crawl_defaults ''job-1'' ''http://a.test/A'' (crawl_options 1 5)) ^^ n)
      (crawl_start (crawl_defaults ''job-1'' ''http://a.test/A'' (crawl_options 1 5)) 0 site_jobs))"
  "has_tracker ((crawl_iter site_env
      (crawl_defaults ''job-1'' ''http://a.test/A'' (crawl_options 1 5)) ^^ n)
      (crawl_start (crawl_defaults ''job-1'' ''http://a.test/A'' (crawl_options 1 5)) 0 site_jobs))"
proof -
  let ?cfg = "crawl_defaults ''job-1'' ''http://a.test/A'' (crawl_options 1 5)"
  have e: "cfg_enableProgressTracking ?cfg"
    by (simp add: crawl_defaults_def crawl_options_def)
  then show "activeTracker ((crawl_iter site_env ?cfg ^^ n) (crawl_start ?cfg 0 site_jobs))"
    by (simp add: active_funpow crawl_start_def)
  from e have "has_tracker (crawl_start ?cfg 0 site_jobs)"
    by (simp add: has_tracker_def crawl_start_def)
  then show "has_tracker ((crawl_iter site_env ?cfg ^^ n) (crawl_start ?cfg 0 site_jobs))"
    by (rule tracked_funpow)
qed

text \<open>The status column during the cancelled run on the small site: \<^verbatim>\<open>cancelled\<close>
  after the call of \<^verbatim>\<open>cancelCrawlJob\<close>, \<^verbatim>\<open>completed\<close> at the end.\<close>

lemma site_cancelled_run_status:
  "map_option job_status
       (jobs (fst (cancelCrawlJob (crawl_defaults ''job-1'' ''http://a.test/A'' (crawl_options 1 5)) 500
          ((crawl_iter site_env (crawl_defaults ''job-1'' ''http://a.test/A'' (crawl_options 1 5)) ^^ 1)
             (crawl_start (crawl_defaults ''job-1'' ''http://a.test/A'' (crawl_options 1 5)) 0 site_jobs))))
          ''job-1'') = Some cancelled"
  "map_option job_status
       (jobs (crawl_cancelled_after 1 500 site_env ''job-1'' ''http://a.test/A''
          (crawl_options 1 5) 0 site_jobs) ''job-1'') = Some completed"
proof -
  let ?cfg = "crawl_defaults ''job-1'' ''http://a.test/A'' (crawl_options 1 5)"
  let ?s1 = "(crawl_iter site_env ?cfg ^^ 1) (crawl_start ?cfg 0 site_jobs)"
  note u = untracked_cancelCrawlJob [OF site_run_tracked [of 1], of ?cfg 500]
  show "map_option job_status (jobs (fst (cancelCrawlJob ?cfg 500 ?s1)) ''job-1'') = Some cancelled"
    by (subst via_untracked(6), unfold u, unfold untracked_run, code_simp)
  have f: "crawl_cancelled_after 1 500 site_env ''job-1'' ''http://a.test/A''
          (crawl_options 1 5) 0 site_jobs
        = crawl_finish site_env ?cfg (crawl_loop site_env ?cfg (fst (cancelCrawlJob ?cfg 500 ?s1)))"
    by (simp add: crawl_cancelled_after_def Let_def)
  show "map_option job_status
       (jobs (crawl_cancelled_after 1 500 site_env ''job-1'' ''http://a.test/A''
          (crawl_options 1 5) 0 site_jobs) ''job-1'') = Some completed"
    unfolding f
    by (subst via_untracked(6), unfold untracked_run, unfold u,
        unfold untracked_run, code_simp)
qed

text \<open>
  C1 does not hold of the code. The loop of \<^verbatim>\<open>crawlMultiPage\<close> reads no cancellation
  flag, and \<^verbatim>\<open>cancelCrawlJob\<close> writes nothing the loop reads. On the small site, with
  a budget of five pages, \<^verbatim>\<open>cancelCrawlJob\<close> is called after the first pass of the
  loop, when \<open>A\<close> is done: the call succeeds, marks the tracker \<^verbatim>\<open>failed\<close> and writes the
  status \<^verbatim>\<open>cancelled\<close>. The loop then scrapes \<open>B\<close>, \<open>C\<close> and \<open>D\<close> all the same, and the
  job ends with status \<^verbatim>\<open>completed\<close>.
\<close>

theorem cancel_does_not_stop_crawl:
  fixes cfg :: crawl_config and s1 :: crawl_state and final :: crawl_state
  defines "cfg \<equiv> crawl_defaults ''job-1'' ''http://a.test/A'' (crawl_options 1 5)"
  defines "s1 \<equiv> (crawl_iter site_env cfg ^^ 1) (crawl_start cfg 0 site_jobs)"
  defines "final \<equiv> crawl_cancelled_after 1 500 site_env ''job-1'' ''http://a.test/A''
                      (crawl_options 1 5) 0 site_jobs"
  shows "scraped s1 = [''http://a.test/A'']
    \<and> snd (cancelCrawlJob cfg 500 s1) = True
    \<and> map_option job_status (jobs (fst (cancelCrawlJob cfg 500 s1)) ''job-1'') = Some cancelled
    \<and> map_option status (progressTracker (fst (cancelCrawlJob cfg 500 s1))) = Some Failed
    \<and> scraped final
        = [''http://a.test/A'', ''http://a.test/B'', ''http://a.test/C'', ''http://a.test/D'']
    \<and> map pr_url (results final)
        = [''http://a.test/A'', ''http://a.test/B'', ''http://a.test/C'', ''http://a.test/D'']
    \<and> map_option job_status (jobs final ''job-1'') = Some completed
    \<and> map_option status (progressTracker final) = Some Completed"
proof -
  have f: "final = crawl_finish site_env cfg
             (crawl_loop site_env cfg (fst (cancelCrawlJob cfg 500 s1)))"
    by (simp add: final_def crawl_cancelled_after_def Let_def cfg_def s1_def)
  have act: "activeTracker s1" and trk: "has_tracker s1"
    unfolding s1_def cfg_def by (rule site_run_tracked)+
  note u = untracked_cancelCrawlJob [OF act trk, of cfg 500]
  have 1: "scraped s1 = [''http://a.test/A'']"
    unfolding s1_def cfg_def
    by (subst via_untracked(5), unfold untracked_run, code_simp)
  have 2: "snd (cancelCrawlJob cfg 500 s1) = True"
    by (rule cancel_succeeds [OF act trk])
  have 3: "map_option job_status (jobs (fst (cancelCrawlJob cfg 500 s1)) ''job-1'') = Some cancelled"
    by (subst via_untracked(6), unfold u, unfold s1_def cfg_def,
        unfold untracked_run, code_simp)
  have 4: "map_option status (progressTracker (fst (cancelCrawlJob cfg 500 s1))) = Some Failed"
    by (rule cancel_marks_failed [OF act trk])
  have 5: "scraped final
        = [''http://a.test/A'', ''http://a.test/B'', ''http://a.test/C'', ''http://a.test/D'']"
    unfolding f
    by (subst via_untracked(5), unfold untracked_run, unfold u,
        unfold s1_def cfg_def, unfold untracked_run, code_simp)
  have 6: "map pr_url (results final)
        = [''http://a.test/A'', ''http://a.test/B'', ''http://a.test/C'', ''http://a.test/D'']"
    unfolding f
    by (subst via_untracked(1), unfold untracked_run, unfold u,
        unfold s1_def cfg_def, unfold untracked_run, code_simp)
  have 7: "map_option job_status (jobs final ''job-1'') = Some completed"
    unfolding f
    by (subst via_untracked(6), unfold untracked_run, unfold u,
        unfold s1_def cfg_def, unfold untracked_run, code_simp)
  have "has_tracker (crawl_loop site_env cfg (fst (cancelCrawlJob cfg 500 s1)))"
    by (rule tracked_loop [OF cancel_keeps_tracker [OF trk]])
  then have 8: "map_option status (progressTracker final) = Some Completed"
    unfolding f by (rule finish_marks_completed)
  from 1 2 3 4 5 6 7 8 show ?thesis
    by blast
qed

text \<open>
  C2 does not hold of the code. \<^verbatim>\<open>updateJobStatus\<close> writes the status without looking
  at the status the row holds, and \<^verbatim>\<open>cancelJob\<close> refuses only a job that is
  \<^verbatim>\<open>completed\<close>: a job whose status is \<^verbatim>\<open>failed\<close> is moved to \<^verbatim>\<open>cancelled\<close>. And a
  crawl job that \<^verbatim>\<open>cancelCrawlJob\<close> has set to \<^verbatim>\<open>cancelled\<close> is set to \<^verbatim>\<open>completed\<close>
  when its loop ends.
\<close>

theorem terminal_status_overwritten:
  "map_option job_status
     (fst (cancelJob True ''job-2''
        [''job-2'' \<mapsto> \<lparr> job_type = ''crawl'', job_status = failed,
                         error_message = Some ''Unknown job type'' \<rparr>]) ''job-2'') = Some cancelled
   \<and> snd (cancelJob True ''job-2''
        [''job-2'' \<mapsto> \<lparr> job_type = ''crawl'', job_status = failed,
                         error_message = Some ''Unknown job type'' \<rparr>]) = True
   \<and> map_option job_status
       (jobs (fst (cancelCrawlJob (crawl_defaults ''job-1'' ''http://a.test/A'' (crawl_options 1 5)) 500
          ((crawl_iter site_env (crawl_defaults ''job-1'' ''http://a.test/A'' (crawl_options 1 5)) ^^ 1)
             (crawl_start (crawl_defaults ''job-1'' ''http://a.test/A'' (crawl_options 1 5)) 0 site_jobs))))
          ''job-1'') = Some cancelled
   \<and> map_option job_status
       (jobs (crawl_cancelled_after 1 500 site_env ''job-1'' ''http://a.test/A''
          (crawl_options 1 5) 0 site_jobs) ''job-1'') = Some completed"
proof -
  have "map_option job_status
     (fst (cancelJob True ''job-2''
        [''job-2'' \<mapsto> \<lparr> job_type = ''crawl'', job_status = failed,
                         error_message = Some ''Unknown job type'' \<rparr>]) ''job-2'') = Some cancelled"
    and "snd (cancelJob True ''job-2''
        [''job-2'' \<mapsto> \<lparr> job_type = ''crawl'', job_status = failed,
                         error_message = Some ''Unknown job type'' \<rparr>]) = True"
    by code_simp+
  with site_cancelled_run_status show ?thesis
    by blast
qed

section \<open>Properties of the browser pool\<close>

text \<open>
  C6 does not hold of the code when two calls of \<^verbatim>\<open>getBrowser\<close> overlap. With
  \<^verbatim>\<open>maxInstances = 1\<close> and an empty pool, the first call finds no idle instance, sees
  \<open>0 < 1\<close> and waits for its browser to launch; the second call, started meanwhile, sees
  the same pool and does the same. The first launch finishes and the first call returns
  its instance; then the second launch finishes and the second call returns its own: the pool holds two instances, both in use, and no call has failed.
  Run one after the other, the second call fails with the exhaustion error.
\<close>

theorem overlapping_getBrowser_exceeds_limit:
  "map fst (instances (fst (pool_run
       [(0, caller_env ''browser_1'' 10), (1, caller_env ''browser_2'' 11),
        (0, caller_env ''browser_1'' 20), (0, caller_env ''browser_1'' 20),
        (1, caller_env ''browser_2'' 21), (1, caller_env ''browser_2'' 21)]
       (single_pool, [GB_Start, GB_Start])))) = [''browser_1'', ''browser_2'']
   \<and> instancesInUse (fst (pool_run
       [(0, caller_env ''browser_1'' 10), (1, caller_env ''browser_2'' 11),
        (0, caller_env ''browser_1'' 20), (0, caller_env ''browser_1'' 20),
        (1, caller_env ''browser_2'' 21), (1, caller_env ''browser_2'' 21)]
       (single_pool, [GB_Start, GB_Start]))) = 2
   \<and> maxInstances (fst (pool_run
       [(0, caller_env ''browser_1'' 10), (1, caller_env ''browser_2'' 11),
        (0, caller_env ''browser_1'' 20), (0, caller_env ''browser_1'' 20),
        (1, caller_env ''browser_2'' 21), (1, caller_env ''browser_2'' 21)]
       (single_pool, [GB_Start, GB_Start]))) = 1
   \<and> snd (pool_run
       [(0, caller_env ''browser_1'' 10), (1, caller_env ''browser_2'' 11),
        (0, caller_env ''browser_1'' 20), (0, caller_env ''browser_1'' 20),
        (1, caller_env ''browser_2'' 21), (1, caller_env ''browser_2'' 21)]
       (single_pool, [GB_Start, GB_Start]))
       = [GB_Done (Inr ''browser_1''), GB_Done (Inr ''browser_2'')]
   \<and> snd (getBrowser (caller_env ''browser_1'' 10) single_pool) = GB_Done (Inr ''browser_1'')
   \<and> snd (getBrowser (caller_env ''browser_2'' 11)
            (fst (getBrowser (caller_env ''browser_1'' 10) single_pool)))
       = GB_Done (Inl ''No available browser instances and maximum limit reached'')"
  by code_simp

subsection \<open>Calls that do not overlap\<close>

lemma length_map_set:
  "length (map_set k v xs) = (if k \<in> fst ` set xs then length xs else Suc (length xs))"
  by (induction xs) force+

lemma map_of_map_set: "map_of (map_set k v xs) k = Some v"
  by (induction xs) auto

lemma map_set_twice: "map_set k v' (map_set k v xs) = map_set k v' xs"
  by (induction xs) auto

lemma find_idle_key:
  "find (\<lambda>kv. \<not> inUse (snd kv)) xs = Some (k, i) \<Longrightarrow> k \<in> fst ` set xs"
  by (induction xs) (auto split: if_splits)

lemma closeBrowser_bound:
  "length (instances (closeBrowser env k m)) \<le> length (instances m)"
  "maxInstances (closeBrowser env k m) = maxInstances m"
  by (simp_all add: closeBrowser_def map_delete_def split: option.splits)

lemma cleanup_fold_bound:
  "length (instances (foldl (\<lambda>m' (browserId, instance).
              if \<not> inUse instance \<and> pe_now env - lastUsed instance > maxAge
              then closeBrowser env browserId m' else m') m xs)) \<le> length (instances m)
   \<and> maxInstances (foldl (\<lambda>m' (browserId, instance).
              if \<not> inUse instance \<and> pe_now env - lastUsed instance > maxAge
              then closeBrowser env browserId m' else m') m xs) = maxInstances m"
proof (induction xs arbitrary: m)
  case Nil
  then show ?case by simp
next
  case (Cons x xs)
  obtain k i where x: "x = (k, i)" by (cases x)
  show ?case
  proof (cases "\<not> inUse i \<and> pe_now env - lastUsed i > maxAge")
    case True
    with Cons.IH [of "closeBrowser env k m"] closeBrowser_bound [of env k m] x show ?thesis
      by auto
  next
    case False
    with Cons.IH [of m] x show ?thesis
      by auto
  qed
qed

lemma cleanupOldInstances_bound:
  "length (instances (cleanupOldInstances env m)) \<le> length (instances m)"
  "maxInstances (cleanupOldInstances env m) = maxInstances m"
  using cleanup_fold_bound [of env m "instances m"] by (simp_all add: cleanupOldInstances_def)

lemma gb_run_done [simp]: "gb_run n env (m, GB_Done r) = (m, GB_Done r)"
  by (induction n) simp_all

lemma gb_run_acquire: "gb_run (Suc (Suc n)) env (reuse_or_create env m) = acquire env m"
  by (auto simp: reuse_or_create_def acquire_def map_of_map_set map_set_twice
           split: option.splits)

lemma getBrowser_run: "getBrowser env m = gb_run 4 env (m, GB_Start)"
proof -
  have 4: "(4::nat) = Suc (Suc (Suc (Suc 0)))"
    by simp
  show ?thesis
    unfolding getBrowser_def 4 by (simp add: Let_def split: prod.splits)
qed

lemma getBrowser_is_policy: "getBrowser env m = getBrowser_policy env m"
proof -
  have 4: "(4::nat) = Suc (Suc (Suc (Suc 0)))"
    by simp
  show ?thesis
    unfolding getBrowser_run getBrowser_policy_def 4
    by (simp add: gb_run_acquire del: gb_run.simps(2))
       (simp add: gb_run_acquire gb_run.simps(2) [of _ env m GB_Start]
                  gb_run.simps(2) [of _ env "cleanupOldInstances env m" GB_AfterCleanup]
             del: gb_run.simps(2))
qed

lemma acquire_bound:
  assumes "length (instances m) \<le> maxInstances m"
  shows "length (instances (fst (acquire env m))) \<le> maxInstances m"
    and "maxInstances (fst (acquire env m)) = maxInstances m"
    and "\<exists>r. snd (acquire env m) = GB_Done r"
proof -
  show "length (instances (fst (acquire env m))) \<le> maxInstances m"
  proof (cases "find (\<lambda>kv. \<not> inUse (snd kv)) (instances m)")
    case None
    with assms show ?thesis
      by (auto simp: acquire_def length_map_set split: option.splits)
  next
    case (Some kv)
    obtain k i where kv: "kv = (k, i)" by (cases kv)
    from Some kv have "k \<in> fst ` set (instances m)"
      by (auto dest: find_idle_key)
    with Some kv assms show ?thesis
      by (simp add: acquire_def length_map_set)
  qed
  show "maxInstances (fst (acquire env m)) = maxInstances m"
    by (auto simp: acquire_def split: option.splits)
  show "\<exists>r. snd (acquire env m) = GB_Done r"
    by (auto simp: acquire_def split: option.splits)
qed

lemma instancesInUse_le: "instancesInUse m \<le> length (instances m)"
  by (simp add: instancesInUse_def)

text \<open>
  A call of \<^verbatim>\<open>getBrowser\<close> that runs without another call in between, on a pool
  within its limit: the pieces of the call compose to the sequential reading of the
  method (clean up at the limit; reuse the first idle instance; else create one below
  the limit; else throw the exhaustion error). The call ends, and the pool stays within
  \<^verbatim>\<open>maxInstances\<close>, as does the number of instances in use.
\<close>

theorem getBrowser_uninterrupted:
  assumes "length (instances m) \<le> maxInstances m"
  shows "getBrowser env m = getBrowser_policy env m
    \<and> (\<exists>r. snd (getBrowser env m) = GB_Done r)
    \<and> maxInstances (fst (getBrowser env m)) = maxInstances m
    \<and> length (instances (fst (getBrowser env m))) \<le> maxInstances m
    \<and> instancesInUse (fst (getBrowser env m)) \<le> maxInstances m"
proof -
  let ?m' = "if length (instances m) \<ge> maxInstances m then cleanupOldInstances env m else m"
  have b: "length (instances ?m') \<le> maxInstances ?m'" and mx: "maxInstances ?m' = maxInstances m"
    using assms cleanupOldInstances_bound [of env m] by auto
  have g: "getBrowser env m = acquire env ?m'"
    by (simp add: getBrowser_is_policy getBrowser_policy_def)
  from acquire_bound [OF b, of env] mx
  have "length (instances (fst (acquire env ?m'))) \<le> maxInstances m"
    and "maxInstances (fst (acquire env ?m')) = maxInstances m"
    and "\<exists>r. snd (acquire env ?m') = GB_Done r"
    by simp_all
  moreover from this(1) instancesInUse_le [of "fst (acquire env ?m')"]
  have "instancesInUse (fst (acquire env ?m')) \<le> maxInstances m"
    by simp
  ultimately show ?thesis
    unfolding g getBrowser_is_policy [symmetric]
    using getBrowser_is_policy [of env m] g by simp
qed

theorem getBrowser_uninterrupted_witness:
  "length (instances (releaseBrowser (caller_env ''browser_1'' 40) ''browser_1''
       (fst (getBrowser (caller_env ''browser_1'' 10) single_pool))))
     \<le> maxInstances (releaseBrowser (caller_env ''browser_1'' 40) ''browser_1''
       (fst (getBrowser (caller_env ''browser_1'' 10) single_pool)))
   \<and> snd (getBrowser (caller_env ''browser_2'' 50)
       (releaseBrowser (caller_env ''browser_1'' 40) ''browser_1''
         (fst (getBrowser (caller_env ''browser_1'' 10) single_pool))))
     = GB_Done (Inr ''browser_1'')
   \<and> length (instances (fst (getBrowser (caller_env ''browser_2'' 50)
       (releaseBrowser (caller_env ''browser_1'' 40) ''browser_1''
         (fst (getBrowser (caller_env ''browser_1'' 10) single_pool))))))
     \<le> maxInstances (releaseBrowser (caller_env ''browser_1'' 40) ''browser_1''
       (fst (getBrowser (caller_env ''browser_1'' 10) single_pool)))"
proof -
  let ?m = "releaseBrowser (caller_env ''browser_1'' 40) ''browser_1''
       (fst (getBrowser (caller_env ''browser_1'' 10) single_pool))"
  have h: "length (instances ?m) \<le> maxInstances ?m"
    by code_simp
  have r: "snd (getBrowser (caller_env ''browser_2'' 50) ?m) = GB_Done (Inr ''browser_1'')"
    by code_simp
  from getBrowser_uninterrupted [OF h, of "caller_env ''browser_2'' 50"] h r show ?thesis
    by blast
qed

lemma releaseBrowser_bound:
  "length (instances (releaseBrowser env k m)) = length (instances m)"
  "maxInstances (releaseBrowser env k m) = maxInstances m"
proof -
  show "length (instances (releaseBrowser env k m)) = length (instances m)"
  proof (cases "map_of (instances m) k")
    case None
    then show ?thesis by (simp add: releaseBrowser_def)
  next
    case (Some i)
    then have "k \<in> fst ` set (instances m)"
      by (auto dest: map_of_SomeD intro: rev_image_eqI)
    with Some show ?thesis
      by (simp add: releaseBrowser_def length_map_set)
  qed
  show "maxInstances (releaseBrowser env k m) = maxInstances m"
    by (simp add: releaseBrowser_def split: option.splits)
qed

lemma apply_pool_op_bound:
  assumes "length (instances m) \<le> maxInstances m"
  shows "length (instances (apply_pool_op m op)) \<le> maxInstances (apply_pool_op m op)
    \<and> maxInstances (apply_pool_op m op) = maxInstances m"
proof (cases op)
  case (GetBrowser env)
  have 1: "length (instances (fst (getBrowser env m))) \<le> maxInstances m"
   and 2: "maxInstances (fst (getBrowser env m)) = maxInstances m"
  proof -
    let ?m' = "if length (instances m) \<ge> maxInstances m then cleanupOldInstances env m else m"
    have b: "length (instances ?m') \<le> maxInstances ?m'" and mx: "maxInstances ?m' = maxInstances m"
      using assms cleanupOldInstances_bound [of env m] by auto
    have g: "getBrowser env m = acquire env ?m'"
      by (simp add: getBrowser_is_policy getBrowser_policy_def)
    from acquire_bound(1,2) [OF b, of env] mx
    show "length (instances (fst (getBrowser env m))) \<le> maxInstances m"
      and "maxInstances (fst (getBrowser env m)) = maxInstances m"
      unfolding g by simp_all
  qed
  with GetBrowser show ?thesis
    by simp
next
  case (ReleaseBrowser env k)
  with assms releaseBrowser_bound [of env k m] show ?thesis
    by simp
next
  case (CloseBrowser env k)
  with assms closeBrowser_bound [of env k m] show ?thesis
    by simp
qed

lemma pool_ops_bound:
  "length (instances m) \<le> maxInstances m \<Longrightarrow>
     length (instances (foldl apply_pool_op m ops)) \<le> maxInstances m
     \<and> maxInstances (foldl apply_pool_op m ops) = maxInstances m"
proof (induction ops arbitrary: m)
  case Nil
  then show ?case by simp
next
  case (Cons op ops)
  from apply_pool_op_bound [OF Cons.prems, of op]
  have "length (instances (apply_pool_op m op)) \<le> maxInstances (apply_pool_op m op)"
    and mx: "maxInstances (apply_pool_op m op) = maxInstances m"
    by simp_all
  from Cons.IH [OF this(1)] mx show ?case
    by simp
qed

text \<open>
  Starting from an empty pool with limit \<open>k\<close>, after any sequence of calls of
  \<^verbatim>\<open>getBrowser\<close>, \<^verbatim>\<open>releaseBrowser\<close> and \<^verbatim>\<open>closeBrowser\<close> that run one after the
  other, the pool holds at most \<open>k\<close> instances and at most \<open>k\<close> are in use.
\<close>

theorem pool_within_limit_sequential:
  "length (instances (foldl apply_pool_op \<lparr> instances = [], maxInstances = k \<rparr> ops)) \<le> k
   \<and> instancesInUse (foldl apply_pool_op \<lparr> instances = [], maxInstances = k \<rparr> ops) \<le> k"
proof -
  have "length (instances (foldl apply_pool_op \<lparr> instances = [], maxInstances = k \<rparr> ops)) \<le> k"
    using pool_ops_bound [of "\<lparr> instances = [], maxInstances = k \<rparr>" ops] by simp
  with instancesInUse_le [of "foldl apply_pool_op \<lparr> instances = [], maxInstances = k \<rparr> ops"]
  show ?thesis
    by simp
qed

section \<open>Properties of the link normalizer\<close>

text \<open>
  C9 does not hold of the code. \<^verbatim>\<open>paramNames\<close> holds a key once for each of its
  occurrences, and for each entry the loop appends all values of that key: a query with
  the key \<open>a\<close> twice comes out with four pairs, and normalizing the result gives
  sixteen. Only one trailing slash is removed from the path, so a path that ends in two
  slashes loses one per pass. \<^verbatim>\<open>deduplicateLinks\<close> inherits both. A URL with distinct
  keys and no trailing slash is left as it is.
\<close>

theorem normalizeUrl_not_idempotent:
  "normalizeUrl ''http://example.com/?a=1&a=2'' = ''http://example.com/?a=1&a=2&a=1&a=2''
   \<and> normalizeUrl (normalizeUrl ''http://example.com/?a=1&a=2'')
       = ''http://example.com/?a=1&a=2&a=1&a=2&a=1&a=2&a=1&a=2&a=1&a=2&a=1&a=2&a=1&a=2&a=1&a=2''
   \<and> normalizeUrl ''http://example.com/docs//'' = ''http://example.com/docs/''
   \<and> normalizeUrl (normalizeUrl ''http://example.com/docs//'') = ''http://example.com/docs''
   \<and> deduplicateLinks [''http://example.com/docs//''] = [''http://example.com/docs/'']
   \<and> deduplicateLinks (deduplicateLinks [''http://example.com/docs//''])
       = [''http://example.com/docs'']
   \<and> normalizeUrl ''http://example.com/docs/?b=2&a=1#top'' = ''http://example.com/docs?a=1&b=2''
   \<and> normalizeUrl (normalizeUrl ''http://example.com/docs/?b=2&a=1#top'')
       = ''http://example.com/docs?a=1&b=2''"
  by code_simp

end
